theory Spec2Isabelle
  imports Main "HOL-Library.Char_ord" "HOL-Library.List_Lexorder"
begin

section \<open>JavaScript values at the gateway boundary\<close>

text \<open>
  The service functions of \<^verbatim>\<open>geminiService.ts\<close> read the gateway's answer with
  \<^verbatim>\<open>JSON.parse\<close>. The TypeScript annotations (\<^verbatim>\<open>NewsItem[]\<close>, \<^verbatim>\<open>ScriptPackage\<close>)
  are erased at run time, so what these functions manipulate are plain JSON values.
  An object is the list of its own properties in insertion order, with distinct keys.
\<close>

datatype json =
    JNull
  | JBool bool
  | JNum string
  | JStr string
  | JArr "json list"
  | JObj "(string \<times> json) list"

type_synonym js_object = "(string \<times> json) list"

text \<open>The exceptions a handler can see: the built-in ones and \<^verbatim>\<open>new Error(message)\<close>.\<close>

datatype error =
    SyntaxError string
  | TypeError string
  | Error string

fun message :: "error \<Rightarrow> string" where
  "message (SyntaxError m) = m"
| "message (TypeError m) = m"
| "message (Error m) = m"

text \<open>Property read \<^verbatim>\<open>o.k\<close> and the write \<^verbatim>\<open>{...o, k: v}\<close>: an existing key keeps its
  place and takes the new value, a new key is appended.\<close>

definition get_prop :: "js_object \<Rightarrow> string \<Rightarrow> json option" where
  "get_prop ob k = map_of ob k"

fun set_prop :: "string \<Rightarrow> json \<Rightarrow> js_object \<Rightarrow> js_object" where
  "set_prop k v [] = [(k, v)]"
| "set_prop k v (p # ps) = (if fst p = k then (k, v) # ps else p # set_prop k v ps)"

text \<open>\<^verbatim>\<open>Number.prototype.toString\<close> on a non-negative integer: its decimal digits.\<close>

definition digit_char :: "nat \<Rightarrow> char" where
  "digit_char d = ''0123456789'' ! d"

function toString :: "nat \<Rightarrow> string" where
  "toString n = (if n < 10 then [digit_char n] else toString (n div 10) @ [digit_char (n mod 10)])"
  by pat_completeness auto
termination
  by (relation "measure (\<lambda>n. n)") auto

declare toString.simps [simp del]

text \<open>Own enumerable properties copied by the spread \<^verbatim>\<open>{...v}\<close>: those of an object,
  the indices of an array or of a string, nothing for \<^verbatim>\<open>null\<close>, numbers and booleans.\<close>

fun indexed :: "nat \<Rightarrow> json list \<Rightarrow> js_object" where
  "indexed i [] = []"
| "indexed i (v # vs) = (toString i, v) # indexed (Suc i) vs"

fun spread :: "json \<Rightarrow> js_object" where
  "spread (JObj ps) = ps"
| "spread (JArr vs) = indexed 0 vs"
| "spread (JStr s) = indexed 0 (map (\<lambda>c. JStr [c]) s)"
| "spread _ = []"

text \<open>\<^verbatim>\<open>xs.map((item, idx) => ({ ...item, id: `<prefix>${idx}` }))\<close>, the loop index
  written out.\<close>

fun assign_ids :: "string \<Rightarrow> nat \<Rightarrow> json list \<Rightarrow> js_object list" where
  "assign_ids prefix idx [] = []"
| "assign_ids prefix idx (item # items) =
     set_prop ''id'' (JStr (prefix @ toString idx)) (spread item)
       # assign_ids prefix (Suc idx) items"

text \<open>\<^verbatim>\<open>response.text || d\<close>: the default replaces an undefined or empty text.\<close>

definition text_or :: "string option \<Rightarrow> string \<Rightarrow> string" where
  "text_or t d = (case t of None \<Rightarrow> d | Some s \<Rightarrow> if s = [] then d else s)"

section \<open>geminiService: news and script generation\<close>

text \<open>
  \<^verbatim>\<open>JSON.parse\<close> is a parameter \<open>parse\<close>: \<open>None\<close> is the thrown \<^verbatim>\<open>SyntaxError\<close>.
  The second argument is \<^verbatim>\<open>response.text\<close> of a gateway call that resolved.

  \<^verbatim>\<open>fetchTrendingNews\<close>: the \<^verbatim>\<open>try\<close> block covers the parse and the \<^verbatim>\<open>data.map\<close>
  call; \<^verbatim>\<open>map\<close> exists on arrays only, any other value raises a \<^verbatim>\<open>TypeError\<close> that the
  same \<^verbatim>\<open>catch\<close> turns into the empty list.
\<close>

definition fetchTrendingNews :: "(string \<Rightarrow> json option) \<Rightarrow> string option \<Rightarrow> js_object list" where
  "fetchTrendingNews parse response_text =
     (case parse (text_or response_text ''[]'') of
        None \<Rightarrow> []
      | Some (JArr items) \<Rightarrow> assign_ids ''news-'' 0 items
      | Some _ \<Rightarrow> [])"

text \<open>
  \<^verbatim>\<open>generateScriptPackage\<close> has no \<^verbatim>\<open>try\<close>: a parse failure, a value without a
  \<^verbatim>\<open>segments\<close> property and a \<^verbatim>\<open>segments\<close> that is no array all reject the promise.
  Nothing looks at the number of segments.
\<close>

definition generateScriptPackage :: "(string \<Rightarrow> json option) \<Rightarrow> string option \<Rightarrow> error + js_object" where
  "generateScriptPackage parse response_text =
     (case parse (text_or response_text ''{}'') of
        None \<Rightarrow> Inl (SyntaxError ''Unexpected token'')
      | Some JNull \<Rightarrow> Inl (TypeError ''Cannot read properties of null (reading segments)'')
      | Some (JObj data) \<Rightarrow>
          (case get_prop data ''segments'' of
             Some (JArr segs) \<Rightarrow>
               Inr (set_prop ''segments'' (JArr (map JObj (assign_ids ''seg-'' 0 segs))) data)
           | Some JNull \<Rightarrow> Inl (TypeError ''Cannot read properties of null (reading map)'')
           | Some _ \<Rightarrow> Inl (TypeError ''data.segments.map is not a function'')
           | None \<Rightarrow> Inl (TypeError ''Cannot read properties of undefined (reading map)''))
      | Some _ \<Rightarrow> Inl (TypeError ''Cannot read properties of undefined (reading map)''))"

text \<open>The segments of a package object, as later code reads them: \<^verbatim>\<open>pkg.segments\<close>.\<close>

definition segments_of :: "js_object \<Rightarrow> json list option" where
  "segments_of pkg = (case get_prop pkg ''segments'' of Some (JArr segs) \<Rightarrow> Some segs | _ \<Rightarrow> None)"

definition id_of :: "json \<Rightarrow> json option" where
  "id_of v = (case v of JObj ob \<Rightarrow> get_prop ob ''id'' | _ \<Rightarrow> None)"

section \<open>The data model of \<^verbatim>\<open>types.ts\<close>\<close>

datatype step = NEWS | IDEATION | SCRIPT | REF_IMAGE | PRODUCTION

record NewsItem =
  news_id :: string
  news_title :: string
  snippet :: string
  news_url :: string

record IdeationItem =
  idea_id :: string
  idea_title :: string
  idea_description :: string

text \<open>A field declared \<^verbatim>\<open>?: string | null\<close> is undefined, \<^verbatim>\<open>null\<close> or a string;
  the code tests such fields for truthiness, which the empty string fails too.\<close>

datatype url_field = Undefined | Null | Url string

fun truthy_url :: "url_field \<Rightarrow> bool" where
  "truthy_url (Url u) = (u \<noteq> [])"
| "truthy_url _ = False"

fun url_string :: "url_field \<Rightarrow> string" where
  "url_string (Url u) = u"
| "url_string _ = []"

definition truthy_str :: "string option \<Rightarrow> bool" where
  "truthy_str u = (case u of None \<Rightarrow> False | Some s \<Rightarrow> s \<noteq> [])"

record ScriptSegment =
  seg_id :: string
  timestamp :: string
  seg_text :: string
  imagePrompt :: string
  imageUrl :: url_field
  videoUrl :: url_field
  isGenerating :: "bool option"
  isVideoGenerating :: "bool option"

text \<open>The package in the store is the gateway's answer as \<^verbatim>\<open>generateScriptPackage\<close>
  returned it; nothing checks its fields. \<open>title\<close> is the one text field that \<^verbatim>\<open>App\<close>
  calls a method on (\<^verbatim>\<open>title.replace\<close> in \<^verbatim>\<open>downloadProduction\<close>), so whether it is a
  string is kept: \<open>None\<close> is any other value. The other text fields are only passed
  on.\<close>

record ScriptPackage =
  title :: "string option"
  description :: string
  tags :: "string list"
  cta :: string
  thumbnailPrompt :: string
  thumbnailUrl :: "string option"
  audioUrl :: "string option"
  isAudioGenerating :: "bool option"
  mainRefPrompt :: string
  fullScriptPara :: string
  segments :: "ScriptSegment list"

text \<open>The state of \<^verbatim>\<open>App\<close>. The package is whatever \<^verbatim>\<open>generateScriptPackage\<close>
  resolved to, hence the type parameter; the production handlers read it as a
  \<^typ>\<open>ScriptPackage\<close>, as their annotations say.\<close>

record 'pkg WorkflowState =
  step :: step
  selectedNews :: "NewsItem option"
  ideationOptions :: "IdeationItem list"
  selectedIdea :: "IdeationItem option"
  scriptPackage :: "'pkg option"
  refImages :: "(string \<times> string) list"
  selectedRefImageUrl :: "string option"
  needsApiKey :: "bool option"

definition initial_state :: "'pkg WorkflowState" where
  "initial_state =
     \<lparr>step = NEWS, selectedNews = None, ideationOptions = [], selectedIdea = None,
      scriptPackage = None, refImages = [], selectedRefImageUrl = None, needsApiKey = None\<rparr>"

text \<open>\<^verbatim>\<open>Partial<ScriptSegment>\<close>: every key may be missing (\<open>None\<close>).\<close>

record SegmentUpdates =
  u_id :: "string option"
  u_timestamp :: "string option"
  u_text :: "string option"
  u_imagePrompt :: "string option"
  u_imageUrl :: "url_field option"
  u_videoUrl :: "url_field option"
  u_isGenerating :: "bool option option"
  u_isVideoGenerating :: "bool option option"

definition no_updates :: SegmentUpdates where
  "no_updates =
     \<lparr>u_id = None, u_timestamp = None, u_text = None, u_imagePrompt = None, u_imageUrl = None,
      u_videoUrl = None, u_isGenerating = None, u_isVideoGenerating = None\<rparr>"

definition override :: "'a \<Rightarrow> 'a option \<Rightarrow> 'a" where
  "override old new = (case new of None \<Rightarrow> old | Some v \<Rightarrow> v)"

text \<open>\<^verbatim>\<open>{ ...s, ...updates }\<close>\<close>

definition merge_segment :: "ScriptSegment \<Rightarrow> SegmentUpdates \<Rightarrow> ScriptSegment" where
  "merge_segment s u =
     \<lparr>seg_id = override (seg_id s) (u_id u),
      timestamp = override (timestamp s) (u_timestamp u),
      seg_text = override (seg_text s) (u_text u),
      imagePrompt = override (imagePrompt s) (u_imagePrompt u),
      imageUrl = override (imageUrl s) (u_imageUrl u),
      videoUrl = override (videoUrl s) (u_videoUrl u),
      isGenerating = override (isGenerating s) (u_isGenerating u),
      isVideoGenerating = override (isVideoGenerating s) (u_isVideoGenerating u)\<rparr>"

section \<open>Handlers as traces\<close>

text \<open>
  A handler of \<^verbatim>\<open>App\<close> is an async function. Its run is the list of things it does, in
  program order: \<^verbatim>\<open>setState(prev => ...)\<close> with the updater it passes, the gateway calls
  it issues, the point where an awaited call has settled, alerts and console errors, and
  the error its own promise rejects with when an exception escapes. The results of the
  gateway calls are arguments of the model. \<^verbatim>\<open>loading\<close>, \<^verbatim>\<open>exporting\<close>, \<^verbatim>\<open>news\<close> and
  \<^verbatim>\<open>manualRef\<close> are state cells of their own, apart from the workflow state; they are
  left out.
\<close>

datatype call =
    GenerateIdeation string string
  | GenerateScriptPackage string string
  | GenerateRefImages string
  | GenerateSpeech string
  | GenerateThumbnail string
  | GenerateSceneImage string string
  | GenerateSceneVideo string string
  | HasSelectedApiKey
  | OpenSelectKey

datatype 'st event =
    SetState "'st \<Rightarrow> 'st"
  | Issue call
  | Settled call
  | Alert string
  | ConsoleError string
  | Reject error

text \<open>The store after a trace, when nothing else writes in between: every updater is
  applied to the value the one before it left.\<close>

fun run :: "'st event list \<Rightarrow> 'st \<Rightarrow> 'st" where
  "run [] st = st"
| "run (SetState f # es) st = run es (f st)"
| "run (e # es) st = run es st"

text \<open>Every value the store takes along a trace, the starting one first.\<close>

fun snapshots :: "'st event list \<Rightarrow> 'st \<Rightarrow> 'st list" where
  "snapshots [] st = [st]"
| "snapshots (SetState f # es) st = st # snapshots es (f st)"
| "snapshots (e # es) st = snapshots es st"

fun is_issue :: "'st event \<Rightarrow> bool" where
  "is_issue (Issue c) = True"
| "is_issue _ = False"

fun is_reject :: "'st event \<Rightarrow> bool" where
  "is_reject (Reject e) = True"
| "is_reject _ = False"

fun is_alert :: "'st event \<Rightarrow> bool" where
  "is_alert (Alert m) = True"
| "is_alert _ = False"

text \<open>What a handler did before it issued its first gateway call.\<close>

definition before_issue :: "'st event list \<Rightarrow> 'st event list" where
  "before_issue es = takeWhile (\<lambda>e. \<not> is_issue e) es"

text \<open>The gateway's view of a trace: calls started and calls finished.\<close>

datatype io = Started call | Finished call

fun io_of :: "'st event \<Rightarrow> io list" where
  "io_of (Issue c) = [Started c]"
| "io_of (Settled c) = [Finished c]"
| "io_of _ = []"

definition gateway_log :: "'st event list \<Rightarrow> io list" where
  "gateway_log es = concat (map io_of es)"

subsection \<open>Stage transitions\<close>

definition selectNews :: "NewsItem \<Rightarrow> error + IdeationItem list \<Rightarrow> 'pkg WorkflowState event list" where
  "selectNews item outcome =
     [SetState (\<lambda>prev. prev\<lparr>selectedNews := Some item\<rparr>),
      Issue (GenerateIdeation (news_title item) (snippet item)),
      Settled (GenerateIdeation (news_title item) (snippet item))]
     @ (case outcome of
          Inr ideas \<Rightarrow> [SetState (\<lambda>prev. prev\<lparr>step := IDEATION, ideationOptions := ideas\<rparr>)]
        | Inl e \<Rightarrow> [Alert ''Failed to generate ideas.''])"

definition selectIdea :: "IdeationItem \<Rightarrow> error + 'pkg \<Rightarrow> 'pkg WorkflowState event list" where
  "selectIdea idea outcome =
     [SetState (\<lambda>prev. prev\<lparr>selectedIdea := Some idea\<rparr>),
      Issue (GenerateScriptPackage (idea_title idea) (idea_description idea)),
      Settled (GenerateScriptPackage (idea_title idea) (idea_description idea))]
     @ (case outcome of
          Inr pkg \<Rightarrow> [SetState (\<lambda>prev. prev\<lparr>step := SCRIPT, scriptPackage := Some pkg\<rparr>)]
        | Inl e \<Rightarrow> [Alert ''Failed to generate script.''])"

subsection \<open>Production\<close>

type_synonym state = "ScriptPackage WorkflowState"

definition updateSegment :: "string \<Rightarrow> SegmentUpdates \<Rightarrow> state \<Rightarrow> state" where
  "updateSegment ident updates prev =
     (case scriptPackage prev of
        None \<Rightarrow> prev
      | Some pkg \<Rightarrow>
          prev\<lparr>scriptPackage :=
            Some (pkg\<lparr>segments :=
              map (\<lambda>s. if seg_id s = ident then merge_segment s updates else s) (segments pkg)\<rparr>)\<rparr>)"

text \<open>Updater of the form \<^verbatim>\<open>prev => prev.scriptPackage ? {...} : prev\<close>.\<close>

definition with_package :: "(ScriptPackage \<Rightarrow> ScriptPackage) \<Rightarrow> state \<Rightarrow> state" where
  "with_package f prev =
     (case scriptPackage prev of None \<Rightarrow> prev | Some pkg \<Rightarrow> prev\<lparr>scriptPackage := Some (f pkg)\<rparr>)"

text \<open>The \<^verbatim>\<open>then\<close>/\<^verbatim>\<open>catch\<close> callbacks of the narration call, which is not awaited: they
  run whenever that call settles.\<close>

definition speech_settled :: "string \<Rightarrow> error + string \<Rightarrow> state event list" where
  "speech_settled script outcome =
     Settled (GenerateSpeech script)
     # (case outcome of
          Inr url \<Rightarrow>
            [SetState (with_package (\<lambda>pkg. pkg\<lparr>audioUrl := Some url, isAudioGenerating := Some False\<rparr>))]
        | Inl err \<Rightarrow>
            [ConsoleError ''Audio failed'',
             SetState (with_package (\<lambda>pkg. pkg\<lparr>isAudioGenerating := Some False\<rparr>))])"

text \<open>The body of the loop \<^verbatim>\<open>for (let i = 0; i < segments.length; i++)\<close> over the
  segments copied from the render-time state; \<open>scene i\<close> is what the \<open>i\<close>-th scene-image
  call settles to. The \<^verbatim>\<open>await\<close> keeps the body from going on before the call settled.\<close>

definition scene_iteration :: "ScriptSegment list \<Rightarrow> string \<Rightarrow> (nat \<Rightarrow> error + string) \<Rightarrow> nat \<Rightarrow> state event list" where
  "scene_iteration segs refUrl scene i =
     [SetState (updateSegment (seg_id (segs ! i)) (no_updates\<lparr>u_isGenerating := Some (Some True)\<rparr>)),
      Issue (GenerateSceneImage refUrl (imagePrompt (segs ! i))),
      Settled (GenerateSceneImage refUrl (imagePrompt (segs ! i))),
      (case scene i of
         Inr url \<Rightarrow>
           SetState (updateSegment (seg_id (segs ! i))
             (no_updates\<lparr>u_imageUrl := Some (Url url), u_isGenerating := Some (Some False)\<rparr>))
       | Inl e \<Rightarrow>
           SetState (updateSegment (seg_id (segs ! i))
             (no_updates\<lparr>u_isGenerating := Some (Some False)\<rparr>)))]"

function scenes_loop :: "ScriptSegment list \<Rightarrow> string \<Rightarrow> (nat \<Rightarrow> error + string) \<Rightarrow> nat \<Rightarrow> state event list" where
  "scenes_loop segs refUrl scene i =
     (if i < length segs
      then scene_iteration segs refUrl scene i @ scenes_loop segs refUrl scene (Suc i)
      else [])"
  by pat_completeness auto
termination
  by (relation "measure (\<lambda>(segs, refUrl, scene, i). length segs - i)") auto

declare scenes_loop.simps [simp del]

definition generateProductionAssets ::
  "state \<Rightarrow> string \<Rightarrow> error + string \<Rightarrow> (nat \<Rightarrow> error + string) \<Rightarrow> state event list" where
  "generateProductionAssets state refUrl thumb scene =
     (case scriptPackage state of
        None \<Rightarrow> []
      | Some pkg \<Rightarrow>
          [SetState (with_package (\<lambda>p. p\<lparr>isAudioGenerating := Some True\<rparr>)),
           Issue (GenerateSpeech (fullScriptPara pkg)),
           Issue (GenerateThumbnail (thumbnailPrompt pkg)),
           Settled (GenerateThumbnail (thumbnailPrompt pkg)),
           (case thumb of
              Inr thumbUrl \<Rightarrow> SetState (with_package (\<lambda>p. p\<lparr>thumbnailUrl := Some thumbUrl\<rparr>))
            | Inl e \<Rightarrow> ConsoleError ''Thumbnail failed'')]
          @ scenes_loop (segments pkg) refUrl scene 0)"

definition selectRefImage ::
  "state \<Rightarrow> string \<Rightarrow> error + string \<Rightarrow> (nat \<Rightarrow> error + string) \<Rightarrow> state event list" where
  "selectRefImage state url thumb scene =
     SetState (\<lambda>prev. prev\<lparr>step := PRODUCTION, selectedRefImageUrl := Some url\<rparr>)
     # generateProductionAssets state url thumb scene"

text \<open>\<^verbatim>\<open>String.prototype.includes\<close>\<close>

fun str_includes :: "string \<Rightarrow> string \<Rightarrow> bool" where
  "str_includes [] needle = (needle = [])"
| "str_includes (c # cs) needle = (take (length needle) (c # cs) = needle \<or> str_includes cs needle)"

text \<open>\<^verbatim>\<open>await window.aistudio?.hasSelectedApiKey()\<close>: without \<^verbatim>\<open>aistudio\<close> nothing is
  called and the value is undefined; otherwise the call resolves to a boolean or rejects.\<close>

datatype key_check = NoStudio | Checked "error + bool"

definition needs_key :: "state \<Rightarrow> state" where
  "needs_key prev = prev\<lparr>needsApiKey := Some True\<rparr>"

definition animateScene :: "ScriptSegment \<Rightarrow> key_check \<Rightarrow> error + string \<Rightarrow> state event list" where
  "animateScene segment key video =
     (if \<not> truthy_url (imageUrl segment) then []
      else
        (case key of
           NoStudio \<Rightarrow> [SetState needs_key]
         | Checked (Inl e) \<Rightarrow> [Issue HasSelectedApiKey, Settled HasSelectedApiKey, Reject e]
         | Checked (Inr hasKey) \<Rightarrow>
             [Issue HasSelectedApiKey, Settled HasSelectedApiKey]
             @ (if \<not> hasKey then [SetState needs_key]
                else
                  [SetState (updateSegment (seg_id segment)
                     (no_updates\<lparr>u_isVideoGenerating := Some (Some True)\<rparr>)),
                   Issue (GenerateSceneVideo (url_string (imageUrl segment)) (imagePrompt segment)),
                   Settled (GenerateSceneVideo (url_string (imageUrl segment)) (imagePrompt segment))]
                  @ (case video of
                       Inr url \<Rightarrow>
                         [SetState (updateSegment (seg_id segment)
                            (no_updates\<lparr>u_videoUrl := Some (Url url),
                                         u_isVideoGenerating := Some (Some False)\<rparr>))]
                     | Inl e \<Rightarrow>
                         [ConsoleError ''Animation failed'',
                          (if str_includes (message e) ''Requested entity was not found''
                           then SetState needs_key
                           else Alert ''Animation failed. Check API key billing.''),
                          SetState (updateSegment (seg_id segment)
                            (no_updates\<lparr>u_isVideoGenerating := Some (Some False)\<rparr>))]))))"

text \<open>\<open>state\<close> is the render-time state the handler closed over, \<open>segment\<close> the object
  the button was rendered with, \<open>outcome\<close> what the scene-image call settles to.\<close>

definition regenerateScene :: "state \<Rightarrow> ScriptSegment \<Rightarrow> error + string \<Rightarrow> state event list" where
  "regenerateScene state segment outcome =
     (if \<not> truthy_str (selectedRefImageUrl state) then []
      else
        [SetState (updateSegment (seg_id segment) (no_updates\<lparr>u_isGenerating := Some (Some True)\<rparr>)),
         Issue (GenerateSceneImage (the (selectedRefImageUrl state)) (imagePrompt segment)),
         Settled (GenerateSceneImage (the (selectedRefImageUrl state)) (imagePrompt segment)),
         (case outcome of
            Inr url \<Rightarrow>
              SetState (updateSegment (seg_id segment)
                (no_updates\<lparr>u_imageUrl := Some (Url url), u_isGenerating := Some (Some False),
                             u_videoUrl := Some Null\<rparr>))
          | Inl e \<Rightarrow>
              SetState (updateSegment (seg_id segment)
                (no_updates\<lparr>u_isGenerating := Some (Some False)\<rparr>)))])"

subsection \<open>The remaining handlers\<close>

text \<open>\<^verbatim>\<open>urls.map((url, i) => ({ id: `ref-${i}`, url }))\<close>\<close>

fun ref_images :: "nat \<Rightarrow> string list \<Rightarrow> (string \<times> string) list" where
  "ref_images i [] = []"
| "ref_images i (url # urls) = (''ref-'' @ toString i, url) # ref_images (Suc i) urls"

text \<open>\<open>state\<close> is the render-time state; \<open>outcome\<close> what \<^verbatim>\<open>generateRefImages\<close> settles to.\<close>

definition generateReferenceImages :: "state \<Rightarrow> error + string list \<Rightarrow> state event list" where
  "generateReferenceImages state outcome =
     (case scriptPackage state of
        None \<Rightarrow> []
      | Some pkg \<Rightarrow>
          [Issue (GenerateRefImages (mainRefPrompt pkg)), Settled (GenerateRefImages (mainRefPrompt pkg))]
          @ (case outcome of
               Inr urls \<Rightarrow> [SetState (\<lambda>prev. prev\<lparr>step := REF_IMAGE, refImages := ref_images 0 urls\<rparr>)]
             | Inl e \<Rightarrow> [Alert ''Failed to generate style variations.'']))"

text \<open>\<^verbatim>\<open>await window.aistudio?.openSelectKey()\<close>: no call without \<^verbatim>\<open>aistudio\<close>, else
  the dialog resolves or rejects.\<close>

definition openApiKeyDialog :: "(error + unit) option \<Rightarrow> state event list" where
  "openApiKeyDialog dialog =
     (case dialog of
        None \<Rightarrow> [SetState (\<lambda>prev. prev\<lparr>needsApiKey := Some False\<rparr>)]
      | Some (Inl e) \<Rightarrow> [Issue OpenSelectKey, Settled OpenSelectKey, Reject e]
      | Some (Inr u) \<Rightarrow>
          [Issue OpenSelectKey, Settled OpenSelectKey,
           SetState (\<lambda>prev. prev\<lparr>needsApiKey := Some False\<rparr>)])"

section \<open>Reachable states\<close>

text \<open>
  Every \<^verbatim>\<open>setState\<close> call of \<^verbatim>\<open>App\<close> is in one of the handlers above. The states the
  store can take are those obtained from the initial one by applying updaters of handler
  runs, in any interleaving, for any arguments, any closed-over state and any outcomes
  of the calls.
\<close>

fun updaters :: "'st event list \<Rightarrow> ('st \<Rightarrow> 'st) list" where
  "updaters [] = []"
| "updaters (SetState f # es) = f # updaters es"
| "updaters (e # es) = updaters es"

inductive reachable :: "state \<Rightarrow> bool" where
  start: "reachable initial_state"
| news: "reachable st \<Longrightarrow> f \<in> set (updaters (selectNews item ideas)) \<Longrightarrow> reachable (f st)"
| idea: "reachable st \<Longrightarrow> f \<in> set (updaters (selectIdea idea pkg)) \<Longrightarrow> reachable (f st)"
| refs: "reachable st \<Longrightarrow> f \<in> set (updaters (generateReferenceImages cl urls)) \<Longrightarrow> reachable (f st)"
| ref: "reachable st \<Longrightarrow> f \<in> set (updaters (selectRefImage cl url thumb scene)) \<Longrightarrow> reachable (f st)"
| speech: "reachable st \<Longrightarrow> f \<in> set (updaters (speech_settled script audio)) \<Longrightarrow> reachable (f st)"
| animate: "reachable st \<Longrightarrow> f \<in> set (updaters (animateScene segment key video)) \<Longrightarrow> reachable (f st)"
| regenerate: "reachable st \<Longrightarrow> f \<in> set (updaters (regenerateScene cl segment img)) \<Longrightarrow> reachable (f st)"
| dialog: "reachable st \<Longrightarrow> f \<in> set (updaters (openApiKeyDialog d)) \<Longrightarrow> reachable (f st)"

definition no_ideas_at_news :: "state \<Rightarrow> bool" where
  "no_ideas_at_news st \<longleftrightarrow> (step st = NEWS \<longrightarrow> ideationOptions st = [])"

definition keeps :: "(state \<Rightarrow> state) \<Rightarrow> bool" where
  "keeps f \<longleftrightarrow> (\<forall>st. no_ideas_at_news st \<longrightarrow> no_ideas_at_news (f st))"

section \<open>The bundle\<close>

text \<open>\<^verbatim>\<open>fetch(url)\<close> rejects, or resolves to a response with its \<^verbatim>\<open>ok\<close> flag and body.\<close>

datatype 'b fetched = NetworkFailure | Response bool 'b

definition fetchAsBlob :: "(string \<Rightarrow> 'b fetched) \<Rightarrow> string \<Rightarrow> error + 'b" where
  "fetchAsBlob net url =
     (case net url of
        NetworkFailure \<Rightarrow> Inl (TypeError ''Failed to fetch'')
      | Response ok body \<Rightarrow> if \<not> ok then Inl (Error (''Failed to fetch '' @ url)) else Inr body)"

text \<open>\<^verbatim>\<open>String.prototype.padStart\<close> with a one-character filler.\<close>

definition padStart :: "nat \<Rightarrow> char \<Rightarrow> string \<Rightarrow> string" where
  "padStart n c s = replicate (n - length s) c @ s"

definition segment_index :: "nat \<Rightarrow> string" where
  "segment_index i = padStart 2 (CHR ''0'') (toString (i + 1))"

record ProductionMeta =
  meta_title :: "string option"
  meta_description :: string
  meta_tags :: "string list"
  meta_script :: string
  meta_cta :: string
  productionDate :: string

text \<open>A file of the archive: a fetched blob, a text, or the text that
  \<^verbatim>\<open>JSON.stringify(meta, null, 2)\<close> gives for the metadata object. JSZip keeps its files
  under their names, so the archive is a map from names. The folder entry that JSZip
  adds for the prefix \<^verbatim>\<open>scenes/\<close> is no file and has no place in the map.\<close>

datatype 'b entry = Blob 'b | Text string | MetaJson ProductionMeta

type_synonym 'b zip = "string \<rightharpoonup> 'b entry"

definition add_audio :: "(string \<Rightarrow> 'b fetched) \<Rightarrow> ScriptPackage \<Rightarrow> 'b zip \<Rightarrow> error + 'b zip" where
  "add_audio net pkg z =
     (if truthy_str (audioUrl pkg) then
        (case fetchAsBlob net (the (audioUrl pkg)) of
           Inl e \<Rightarrow> Inl e
         | Inr audioBlob \<Rightarrow> Inr (z(''narration.wav'' \<mapsto> Blob audioBlob)))
      else Inr z)"

definition add_thumbnail :: "(string \<Rightarrow> 'b fetched) \<Rightarrow> ScriptPackage \<Rightarrow> 'b zip \<Rightarrow> error + 'b zip" where
  "add_thumbnail net pkg z =
     (if truthy_str (thumbnailUrl pkg) then
        (case fetchAsBlob net (the (thumbnailUrl pkg)) of
           Inl e \<Rightarrow> Inl e
         | Inr thumbBlob \<Rightarrow> Inr (z(''thumbnail.png'' \<mapsto> Blob thumbBlob)))
      else Inr z)"

text \<open>The callback of \<^verbatim>\<open>segments.map(async (seg, i) => ...)\<close>: the file it adds, if any,
  under the name built from \<^verbatim>\<open>(i + 1).toString().padStart(2, '0')\<close>.\<close>

definition motion_name :: "nat \<Rightarrow> string" where
  "motion_name i = ''scenes/segment_'' @ segment_index i @ ''_motion.mp4''"

definition frame_name :: "nat \<Rightarrow> string" where
  "frame_name i = ''scenes/segment_'' @ segment_index i @ ''_frame.png''"

definition segment_task :: "(string \<Rightarrow> 'b fetched) \<Rightarrow> ScriptSegment \<Rightarrow> nat \<Rightarrow> error + (string \<times> 'b entry) option" where
  "segment_task net seg i =
     (if truthy_url (videoUrl seg) then
        (case fetchAsBlob net (url_string (videoUrl seg)) of
           Inl e \<Rightarrow> Inl e
         | Inr videoBlob \<Rightarrow> Inr (Some (motion_name i, Blob videoBlob)))
      else if truthy_url (imageUrl seg) then
        (case fetchAsBlob net (url_string (imageUrl seg)) of
           Inl e \<Rightarrow> Inl e
         | Inr imageBlob \<Rightarrow> Inr (Some (frame_name i, Blob imageBlob)))
      else Inr None)"

text \<open>
  \<^verbatim>\<open>await Promise.all(segmentPromises)\<close>: the tasks run concurrently and the await
  throws as soon as one of them has thrown. Which files the archive holds when all
  succeed, and whether the await throws, do not depend on the order in which the fetches
  settle; the model walks the segments by position. The error kept is that of the first
  failing position; the handler's \<^verbatim>\<open>catch\<close> does not look at it.
\<close>

fun add_segments :: "(string \<Rightarrow> 'b fetched) \<Rightarrow> ScriptSegment list \<Rightarrow> nat \<Rightarrow> 'b zip \<Rightarrow> error + 'b zip" where
  "add_segments net [] i z = Inr z"
| "add_segments net (seg # rest) i z =
     (case segment_task net seg i of
        Inl e \<Rightarrow> Inl e
      | Inr None \<Rightarrow> add_segments net rest (Suc i) z
      | Inr (Some (name, file)) \<Rightarrow> add_segments net rest (Suc i) (z(name \<mapsto> file)))"

definition build_zip :: "(string \<Rightarrow> 'b fetched) \<Rightarrow> string \<Rightarrow> ScriptPackage \<Rightarrow> error + 'b zip" where
  "build_zip net now pkg =
     (case add_audio net pkg Map.empty of
        Inl e \<Rightarrow> Inl e
      | Inr z1 \<Rightarrow>
          (case add_thumbnail net pkg z1 of
             Inl e \<Rightarrow> Inl e
           | Inr z2 \<Rightarrow>
               (case add_segments net (segments pkg) 0 z2 of
                  Inl e \<Rightarrow> Inl e
                | Inr z3 \<Rightarrow>
                    Inr (z3(''production_metadata.json'' \<mapsto>
                              MetaJson \<lparr>meta_title = title pkg, meta_description = description pkg,
                                        meta_tags = tags pkg, meta_script = fullScriptPara pkg,
                                        meta_cta = cta pkg, productionDate = now\<rparr>,
                            ''full_script.txt'' \<mapsto> Text (fullScriptPara pkg))))))"

text \<open>\<^verbatim>\<open>title.replace(/\s+/g, '_')\<close>: every maximal run of white space becomes one
  underscore. Of the characters that \<^verbatim>\<open>\s\<close> matches, those of the 8-bit type \<open>char\<close>
  are: tab, line feed, vertical tab, form feed, carriage return, space and no-break space.\<close>

definition is_space :: "char \<Rightarrow> bool" where
  "is_space c \<longleftrightarrow> c \<in> set [CHR 0x09, CHR 0x0A, CHR 0x0B, CHR 0x0C, CHR 0x0D, CHR 0x20, CHR 0xA0]"

function replace_spaces :: "string \<Rightarrow> string" where
  "replace_spaces [] = []"
| "replace_spaces (c # cs) =
     (if is_space c then CHR ''_'' # replace_spaces (dropWhile is_space cs)
      else c # replace_spaces cs)"
  by pat_completeness auto
termination
  by (relation "measure length") (auto simp: length_dropWhile_le less_Suc_eq_le)

definition download_name :: "string \<Rightarrow> string" where
  "download_name t = ''ShortsAI_Production_'' @ replace_spaces t @ ''.zip''"

text \<open>
  \<^verbatim>\<open>downloadProduction\<close>: nothing happens without a package. Inside the \<^verbatim>\<open>try\<close>, after
  the files are in place, come \<^verbatim>\<open>await zip.generateAsync({ type: "blob" })\<close> and the name
  of the download built from the title; then the archive is handed to the browser under
  that name. Any exception inside the \<^verbatim>\<open>try\<close> ends in the alert and no download: a
  failed fetch, a rejection of \<^verbatim>\<open>generateAsync\<close>, or the \<^verbatim>\<open>TypeError\<close> of
  \<^verbatim>\<open>title.replace\<close> on a title that is no string. JSZip is a library: its
  \<^verbatim>\<open>generateAsync\<close> is the parameter of that name, \<open>Some e\<close> when it rejects with \<open>e\<close>.
  \<open>now\<close> is \<^verbatim>\<open>new Date().toISOString()\<close>. The browser's own calls (\<^verbatim>\<open>createElement\<close>,
  \<^verbatim>\<open>createObjectURL\<close>, \<^verbatim>\<open>click\<close>) and the reading of a body that was received are taken
  to succeed.
\<close>

datatype 'b export = NoPackage | BundleAlert | Archive string "'b zip"

definition downloadProduction ::
  "state \<Rightarrow> (string \<Rightarrow> 'b fetched) \<Rightarrow> ('b zip \<Rightarrow> error option) \<Rightarrow> string \<Rightarrow> 'b export" where
  "downloadProduction state net generateAsync now =
     (case scriptPackage state of
        None \<Rightarrow> NoPackage
      | Some pkg \<Rightarrow>
          (case build_zip net now pkg of
             Inl e \<Rightarrow> BundleAlert
           | Inr z \<Rightarrow>
               (case generateAsync z of
                  Some e \<Rightarrow> BundleAlert
                | None \<Rightarrow>
                    (case title pkg of
                       None \<Rightarrow> BundleAlert
                     | Some t \<Rightarrow> Archive (download_name t) z))))"

text \<open>The files of the archive handed to the browser; none when there was no archive.\<close>

definition archive_of :: "'b export \<Rightarrow> 'b zip" where
  "archive_of e = (case e of Archive name z \<Rightarrow> z | _ \<Rightarrow> Map.empty)"

text \<open>The URL that \<^verbatim>\<open>downloadProduction\<close> fetches for a segment, and whether a fetch
  gives a body.\<close>

definition segment_url :: "ScriptSegment \<Rightarrow> string list" where
  "segment_url seg =
     (if truthy_url (videoUrl seg) then [url_string (videoUrl seg)]
      else if truthy_url (imageUrl seg) then [url_string (imageUrl seg)]
      else [])"

text \<open>The name of the file a segment at position \<open>i\<close> gets, if it gets one.\<close>

definition entry_name :: "ScriptSegment \<Rightarrow> nat \<Rightarrow> string option" where
  "entry_name seg i =
     (if truthy_url (videoUrl seg) then Some (motion_name i)
      else if truthy_url (imageUrl seg) then Some (frame_name i)
      else None)"

definition fetch_ok :: "(string \<Rightarrow> 'b fetched) \<Rightarrow> string \<Rightarrow> bool" where
  "fetch_ok net url = (case net url of Response True body \<Rightarrow> True | _ \<Rightarrow> False)"

section \<open>Sample inputs\<close>

text \<open>A gateway answer with three segments, one of which brings an id of its own, and a
  news answer whose second item is \<^verbatim>\<open>null\<close>.\<close>

definition raw_segments :: "json list" where
  "raw_segments =
     [JObj [(''timestamp'', JStr ''00''), (''id'', JStr ''x'')],
      JObj [(''timestamp'', JStr ''03'')],
      JObj [(''timestamp'', JStr ''06'')]]"

definition raw_script :: js_object where
  "raw_script = [(''title'', JStr ''T''), (''segments'', JArr raw_segments)]"

definition raw_news :: json where
  "raw_news = JArr [JObj [(''id'', JStr ''gw''), (''title'', JStr ''T'')], JNull]"

definition an_idea :: IdeationItem where
  "an_idea = \<lparr>idea_id = ''idea-0'', idea_title = ''A'', idea_description = ''B''\<rparr>"

text \<open>A production state with three scenes: the first has a frame and a clip, the second
  a frame only, the third nothing yet.\<close>

definition seg0 :: ScriptSegment where
  "seg0 = \<lparr>seg_id = ''seg-0'', timestamp = ''00:00'', seg_text = ''one'', imagePrompt = ''p0'',
            imageUrl = Url ''data:img0'', videoUrl = Url ''https://v/0'',
            isGenerating = Some False, isVideoGenerating = Some False\<rparr>"

definition seg1 :: ScriptSegment where
  "seg1 = \<lparr>seg_id = ''seg-1'', timestamp = ''00:03'', seg_text = ''two'', imagePrompt = ''p1'',
            imageUrl = Url ''data:img1'', videoUrl = Undefined,
            isGenerating = Some False, isVideoGenerating = None\<rparr>"

definition seg2 :: ScriptSegment where
  "seg2 = \<lparr>seg_id = ''seg-2'', timestamp = ''00:06'', seg_text = ''three'', imagePrompt = ''p2'',
            imageUrl = Undefined, videoUrl = Undefined,
            isGenerating = None, isVideoGenerating = None\<rparr>"

definition a_package :: ScriptPackage where
  "a_package =
     \<lparr>title = Some ''A title'', description = ''D'', tags = [''t1'', ''t2''], cta = ''Subscribe'',
      thumbnailPrompt = ''tp'', thumbnailUrl = None, audioUrl = Some ''blob:audio'',
      isAudioGenerating = Some False, mainRefPrompt = ''mp'', fullScriptPara = ''one two three'',
      segments = [seg0, seg1, seg2]\<rparr>"

definition a_news :: NewsItem where
  "a_news = \<lparr>news_id = ''news-0'', news_title = ''N'', snippet = ''S'', news_url = ''https://n''\<rparr>"

definition a_state :: state where
  "a_state =
     \<lparr>step = PRODUCTION, selectedNews = Some a_news, ideationOptions = [an_idea],
      selectedIdea = Some an_idea, scriptPackage = Some a_package, refImages = [],
      selectedRefImageUrl = Some ''data:ref'', needsApiKey = None\<rparr>"

text \<open>A package with one function applied to the segments of a given id, the form every
  \<^verbatim>\<open>updateSegment\<close> result has.\<close>

definition on_segment :: "string \<Rightarrow> (ScriptSegment \<Rightarrow> ScriptSegment) \<Rightarrow> ScriptPackage \<Rightarrow> ScriptPackage" where
  "on_segment ident g pkg =
     pkg\<lparr>segments := map (\<lambda>s. if seg_id s = ident then g s else s) (segments pkg)\<rparr>"

text \<open>Scene-image outcomes where the second call fails and the others succeed.\<close>

definition second_fails :: "nat \<Rightarrow> error + string" where
  "second_fails i = (if i = 1 then Inl (Error ''No image in response'') else Inr ''data:fresh'')"

text \<open>Networks for the export: all fetches succeed; the first clip has expired; nothing
  can be fetched. Then a package with no artifact, and one with a hundred scenes.\<close>

definition ok_net :: "string \<Rightarrow> string fetched" where
  "ok_net u = Response True (''bytes of '' @ u)"

definition clip_expired :: "string \<Rightarrow> string fetched" where
  "clip_expired u = (if u = ''https://v/0'' then Response False [] else Response True (''bytes of '' @ u))"

definition offline :: "string \<Rightarrow> string fetched" where
  "offline u = NetworkFailure"

text \<open>A JSZip that packs every archive, and a package whose title is no string.\<close>

definition packs :: "string zip \<Rightarrow> error option" where
  "packs z = None"

definition untitled_state :: state where
  "untitled_state = a_state\<lparr>scriptPackage := Some (a_package\<lparr>title := None\<rparr>)\<rparr>"

definition bare_state :: state where
  "bare_state = a_state\<lparr>scriptPackage := Some (a_package\<lparr>audioUrl := None, segments := [seg2]\<rparr>)\<rparr>"

definition long_package :: ScriptPackage where
  "long_package = a_package\<lparr>segments := map (\<lambda>i. seg1\<lparr>seg_id := ''seg-'' @ toString i\<rparr>) [0..<100]\<rparr>"

definition long_state :: state where
  "long_state = a_state\<lparr>scriptPackage := Some long_package\<rparr>"

section \<open>Facts about the boundary functions\<close>

lemma get_set_prop: "get_prop (set_prop k v ob) k' = (if k' = k then Some v else get_prop ob k')"
  by (induction ob) (auto simp: get_prop_def)

lemma length_assign_ids: "length (assign_ids p i xs) = length xs"
  by (induction xs arbitrary: i) auto

lemma nth_assign_ids:
  "j < length xs \<Longrightarrow>
     assign_ids p i xs ! j = set_prop ''id'' (JStr (p @ toString (i + j))) (spread (xs ! j))"
proof (induction xs arbitrary: i j)
  case Nil
  then show ?case by simp
next
  case (Cons x xs)
  show ?case
  proof (cases j)
    case 0
    then show ?thesis by simp
  next
    case (Suc k)
    with Cons.prems have "k < length xs" by simp
    from Cons.IH [OF this, of "Suc i"] Suc show ?thesis by simp
  qed
qed

lemma assign_ids_id:
  "j < length xs \<Longrightarrow> get_prop (assign_ids p i xs ! j) ''id'' = Some (JStr (p @ toString (i + j)))"
  by (simp add: nth_assign_ids get_set_prop)


subsection \<open>Decimal numerals\<close>

lemma distinct_digits: "distinct ''0123456789''"
  by simp

lemma digit_char_inj: "a < 10 \<Longrightarrow> b < 10 \<Longrightarrow> digit_char a = digit_char b \<Longrightarrow> a = b"
  unfolding digit_char_def using nth_eq_iff_index_eq [OF distinct_digits, of a b]
  by simp

lemma toString_nonempty: "toString n \<noteq> []"
  by (subst toString.simps) simp

lemma toString_inj: "toString a = toString b \<Longrightarrow> a = b"
proof (induction a arbitrary: b rule: toString.induct)
  case (1 n)
  show ?case
  proof (cases "n < 10")
    case True
    show ?thesis
    proof (cases "b < 10")
      case b: True
      from "1.prems" True b have "digit_char n = digit_char b"
        by (simp add: toString.simps)
      with True b show ?thesis by (rule digit_char_inj)
    next
      case b: False
      from "1.prems" True b have "[digit_char n] = toString (b div 10) @ [digit_char (b mod 10)]"
        by (simp add: toString.simps [of n] toString.simps [of b])
      then have "toString (b div 10) = []" by simp
      then show ?thesis using toString_nonempty by simp
    qed
  next
    case False
    show ?thesis
    proof (cases "b < 10")
      case b: True
      from "1.prems" False b have "toString (n div 10) @ [digit_char (n mod 10)] = [digit_char b]"
        by (simp add: toString.simps [of n] toString.simps [of b])
      then have "toString (n div 10) = []" by simp
      then show ?thesis using toString_nonempty by simp
    next
      case b: False
      from "1.prems" False b
      have "toString (n div 10) @ [digit_char (n mod 10)]
              = toString (b div 10) @ [digit_char (b mod 10)]"
        by (simp add: toString.simps [of n] toString.simps [of b])
      then have e: "toString (n div 10) = toString (b div 10)"
        and d: "digit_char (n mod 10) = digit_char (b mod 10)"
        by simp_all
      from "1.IH" [OF False e] have "n div 10 = b div 10" .
      moreover from d have "n mod 10 = b mod 10" by (intro digit_char_inj) simp_all
      ultimately show ?thesis by (metis div_mult_mod_eq)
    qed
  qed
qed

lemma toString_digit: "n < 10 \<Longrightarrow> toString n = [digit_char n]"
  by (simp add: toString.simps)

lemma segments_of_set: "segments_of (set_prop ''segments'' (JArr xs) data) = Some xs"
  by (simp add: segments_of_def get_set_prop)

section \<open>News and script generation\<close>

text \<open>
  Claim C9. Whatever the gateway answered: when its text does not parse,
  \<^verbatim>\<open>fetchTrendingNews\<close> returns the empty list (nothing is raised: the function's result
  is a list in every case); and every item it returns carries the id \<^verbatim>\<open>news-<position>\<close>,
  whatever id the gateway's item had.
\<close>

theorem fetchTrendingNews_total_local_ids:
  "(parse (text_or rt ''[]'') = None \<longrightarrow> fetchTrendingNews parse rt = []) \<and>
   (\<forall>i < length (fetchTrendingNews parse rt).
      get_prop (fetchTrendingNews parse rt ! i) ''id'' = Some (JStr (''news-'' @ toString i)))"
proof (intro conjI impI allI)
  assume "parse (text_or rt ''[]'') = None"
  then show "fetchTrendingNews parse rt = []"
    by (simp add: fetchTrendingNews_def)
next
  fix i
  assume i: "i < length (fetchTrendingNews parse rt)"
  show "get_prop (fetchTrendingNews parse rt ! i) ''id'' = Some (JStr (''news-'' @ toString i))"
  proof (cases "parse (text_or rt ''[]'')")
    case None
    with i show ?thesis by (simp add: fetchTrendingNews_def)
  next
    case (Some v)
    show ?thesis
    proof (cases v)
      case (JArr items)
      with Some i have "i < length items"
        by (simp add: fetchTrendingNews_def length_assign_ids)
      from assign_ids_id [OF this, of "''news-''" 0] Some JArr show ?thesis
        by (simp add: fetchTrendingNews_def)
    qed (use Some i in \<open>simp_all add: fetchTrendingNews_def\<close>)
  qed
qed

text \<open>An answer that is no JSON, and an answer whose first item has an id of its own.\<close>

theorem fetchTrendingNews_total_local_ids_witness:
  "fetchTrendingNews (\<lambda>t. None) (Some ''<html>'') = [] \<and>
   1 < length (fetchTrendingNews (\<lambda>t. Some raw_news) (Some ''r'')) \<and>
   get_prop (fetchTrendingNews (\<lambda>t. Some raw_news) (Some ''r'') ! 1) ''id''
     = Some (JStr (''news-'' @ toString 1))"
proof -
  have a: "fetchTrendingNews (\<lambda>t. None) (Some ''<html>'') = []"
    using fetchTrendingNews_total_local_ids [of "\<lambda>t. None" "Some ''<html>''"] by simp
  have l: "1 < length (fetchTrendingNews (\<lambda>t. Some raw_news) (Some ''r''))"
    by (simp add: fetchTrendingNews_def raw_news_def)
  with fetchTrendingNews_total_local_ids [of "\<lambda>t. Some raw_news" "Some ''r''"]
  have "get_prop (fetchTrendingNews (\<lambda>t. Some raw_news) (Some ''r'') ! 1) ''id''
          = Some (JStr (''news-'' @ toString 1))"
    by blast
  with a l show ?thesis by blast
qed

text \<open>
  Claim C1, as the code has it. Every answer that parses to an object whose \<^verbatim>\<open>segments\<close>
  is an array is accepted, whatever the length of that array: \<^verbatim>\<open>selectIdea\<close> publishes
  the package with step \<^verbatim>\<open>SCRIPT\<close>, with as many segments as the gateway sent (none
  dropped, none added), the segment at position \<open>idx\<close> carrying the id \<^verbatim>\<open>seg-<idx>\<close>.
\<close>

theorem generateScriptPackage_publishes_every_count:
  assumes "parse (text_or rt ''{}'') = Some (JObj data)"
    and "get_prop data ''segments'' = Some (JArr segs)"
  shows "\<exists>pkg published.
           generateScriptPackage parse rt = Inr pkg \<and>
           run (selectIdea idea (generateScriptPackage parse rt)) prev
             = prev\<lparr>selectedIdea := Some idea, step := SCRIPT, scriptPackage := Some pkg\<rparr> \<and>
           segments_of pkg = Some published \<and>
           length published = length segs \<and>
           (\<forall>idx < length published. id_of (published ! idx) = Some (JStr (''seg-'' @ toString idx)))"
proof -
  let ?published = "map JObj (assign_ids ''seg-'' 0 segs)"
  let ?pkg = "set_prop ''segments'' (JArr ?published) data"
  from assms have g: "generateScriptPackage parse rt = Inr ?pkg"
    by (simp add: generateScriptPackage_def)
  have r: "run (selectIdea idea (Inr ?pkg)) prev
             = prev\<lparr>selectedIdea := Some idea, step := SCRIPT, scriptPackage := Some ?pkg\<rparr>"
    by (simp add: selectIdea_def)
  have ids: "\<forall>idx < length ?published. id_of (?published ! idx) = Some (JStr (''seg-'' @ toString idx))"
    using assign_ids_id [of _ segs "''seg-''" 0]
    by (simp add: id_of_def length_assign_ids)
  from g r ids show ?thesis
    by (simp add: segments_of_set length_assign_ids)
qed

theorem generateScriptPackage_publishes_every_count_witness:
  "get_prop raw_script ''segments'' = Some (JArr raw_segments) \<and>
   (\<exists>pkg published.
     generateScriptPackage (\<lambda>t. Some (JObj raw_script)) (Some ''r'') = Inr pkg \<and>
     run (selectIdea an_idea (generateScriptPackage (\<lambda>t. Some (JObj raw_script)) (Some ''r''))) initial_state
       = initial_state\<lparr>selectedIdea := Some an_idea, step := SCRIPT, scriptPackage := Some pkg\<rparr> \<and>
     segments_of pkg = Some published \<and>
     length published = length raw_segments \<and>
     (\<forall>idx < length published. id_of (published ! idx) = Some (JStr (''seg-'' @ toString idx))))"
proof -
  have h2: "get_prop raw_script ''segments'' = Some (JArr raw_segments)"
    by (simp add: raw_script_def get_prop_def)
  from generateScriptPackage_publishes_every_count
         [where parse = "\<lambda>t. Some (JObj raw_script)" and rt = "Some ''r''" and data = raw_script
            and segs = raw_segments and idea = an_idea and prev = initial_state, OF refl h2] h2
  show ?thesis by blast
qed

text \<open>An answer with three segments is not rejected: it is published with its three
  segments.\<close>

theorem script_with_three_segments_is_published:
  "scriptPackage (run (selectIdea an_idea (generateScriptPackage (\<lambda>t. Some (JObj raw_script)) (Some ''r''))) initial_state)
     = Some [(''title'', JStr ''T''),
             (''segments'',
                JArr [JObj [(''timestamp'', JStr ''00''), (''id'', JStr ''seg-0'')],
                      JObj [(''timestamp'', JStr ''03''), (''id'', JStr ''seg-1'')],
                      JObj [(''timestamp'', JStr ''06''), (''id'', JStr ''seg-2'')]])] \<and>
   map_option length
     (Option.bind
        (scriptPackage (run (selectIdea an_idea (generateScriptPackage (\<lambda>t. Some (JObj raw_script)) (Some ''r''))) initial_state))
        segments_of) = Some 3"
  by (simp add: generateScriptPackage_def raw_script_def raw_segments_def text_or_def get_prop_def
      selectIdea_def initial_state_def toString_digit digit_char_def segments_of_def)


section \<open>Stage transitions and regeneration\<close>

lemma merge_isGenerating:
  "merge_segment s (no_updates\<lparr>u_isGenerating := Some v\<rparr>) = s\<lparr>isGenerating := v\<rparr>"
  by (simp add: merge_segment_def no_updates_def override_def)

lemma merge_regenerated:
  "merge_segment s (no_updates\<lparr>u_imageUrl := Some i, u_isGenerating := Some g, u_videoUrl := Some v\<rparr>)
     = s\<lparr>imageUrl := i, videoUrl := v, isGenerating := g\<rparr>"
  by (simp add: merge_segment_def no_updates_def override_def)

lemma merge_generated:
  "merge_segment s (no_updates\<lparr>u_imageUrl := Some i, u_isGenerating := Some g\<rparr>)
     = s\<lparr>imageUrl := i, isGenerating := g\<rparr>"
  by (simp add: merge_segment_def no_updates_def override_def)

lemma updateSegment_Some:
  "scriptPackage prev = Some pkg \<Longrightarrow>
   updateSegment ident u prev
     = prev\<lparr>scriptPackage := Some (on_segment ident (\<lambda>s. merge_segment s u) pkg)\<rparr>"
  by (simp add: updateSegment_def on_segment_def)

lemma on_segment_twice:
  "(\<And>s. seg_id (g s) = seg_id s) \<Longrightarrow>
   on_segment ident h (on_segment ident g pkg) = on_segment ident (\<lambda>s. h (g s)) pkg"
  by (simp add: on_segment_def)

text \<open>
  Claim C10. A regeneration whose scene-image call fails leaves the store as it was, except
  that the segments with the regenerated id have \<open>isGenerating\<close> set to false: their
  \<open>imageUrl\<close> and \<open>videoUrl\<close>, and every other field, are the ones they had.
\<close>

theorem regenerateScene_failure_retains_artifacts:
  assumes "truthy_str (selectedRefImageUrl state)" and "scriptPackage prev = Some pkg"
  shows "run (regenerateScene state segment (Inl e)) prev
           = prev\<lparr>scriptPackage :=
                Some (pkg\<lparr>segments :=
                  map (\<lambda>s. if seg_id s = seg_id segment then s\<lparr>isGenerating := Some False\<rparr> else s)
                    (segments pkg)\<rparr>)\<rparr>"
  using assms
  by (simp add: regenerateScene_def updateSegment_Some merge_isGenerating on_segment_twice)
    (simp add: on_segment_def)


theorem regenerateScene_failure_retains_artifacts_witness:
  "truthy_str (selectedRefImageUrl a_state) \<and> scriptPackage a_state = Some a_package \<and>
   run (regenerateScene a_state seg0 (Inl (Error ''No image in response''))) a_state = a_state"
proof -
  have h1: "truthy_str (selectedRefImageUrl a_state)" by (simp add: a_state_def truthy_str_def)
  have h2: "scriptPackage a_state = Some a_package" by (simp add: a_state_def)
  have "run (regenerateScene a_state seg0 (Inl (Error ''No image in response''))) a_state = a_state"
    by (simp add: regenerateScene_failure_retains_artifacts [OF h1 h2])
      (simp add: a_state_def a_package_def seg0_def seg1_def seg2_def)
  with h1 h2 show ?thesis by blast
qed

lemma regenerateScene_pending:
  assumes "truthy_str (selectedRefImageUrl state)" and "scriptPackage prev = Some pkg"
  shows "run (before_issue (regenerateScene state segment outcome)) prev
           = prev\<lparr>scriptPackage :=
                Some (pkg\<lparr>segments :=
                  map (\<lambda>s. if seg_id s = seg_id segment then s\<lparr>isGenerating := Some True\<rparr> else s)
                    (segments pkg)\<rparr>)\<rparr>"
  using assms
  by (simp add: regenerateScene_def before_issue_def updateSegment_Some merge_isGenerating on_segment_def)

lemma regenerateScene_success:
  assumes "truthy_str (selectedRefImageUrl state)" and "scriptPackage prev = Some pkg"
  shows "run (regenerateScene state segment (Inr url)) prev
           = prev\<lparr>scriptPackage :=
                Some (pkg\<lparr>segments :=
                  map (\<lambda>s. if seg_id s = seg_id segment
                            then s\<lparr>imageUrl := Url url, videoUrl := Null, isGenerating := Some False\<rparr>
                            else s)
                    (segments pkg)\<rparr>)\<rparr>"
  using assms
  by (simp add: regenerateScene_def updateSegment_Some merge_isGenerating merge_regenerated
      on_segment_twice)
    (simp add: on_segment_def)

lemma regenerateScene_snapshots:
  assumes "truthy_str (selectedRefImageUrl state)" and "scriptPackage prev = Some pkg"
  shows "snapshots (regenerateScene state segment (Inr url)) prev
           = [prev,
              run (before_issue (regenerateScene state segment (Inr url))) prev,
              run (regenerateScene state segment (Inr url)) prev]"
  using assms
  by (simp add: regenerateScene_def before_issue_def)

text \<open>
  Claim C2, as the code has it. When the new scene-image call is issued, the only change
  made so far is \<open>isGenerating = true\<close>: the segment still has the \<open>videoUrl\<close> it had.
  The clip is cleared (\<^verbatim>\<open>videoUrl: null\<close>) by the update that stores the new image, after
  the call has succeeded. The store takes three values along the run: the old one, the
  pending one, and the one with the new image and no clip; so the old clip is never held
  together with the new image, but it is held together with the pending image.
\<close>

theorem regenerateScene_clears_motion_with_new_image:
  assumes "truthy_str (selectedRefImageUrl state)" and "scriptPackage prev = Some pkg"
  shows "run (before_issue (regenerateScene state segment (Inr url))) prev
           = prev\<lparr>scriptPackage :=
                Some (pkg\<lparr>segments :=
                  map (\<lambda>s. if seg_id s = seg_id segment then s\<lparr>isGenerating := Some True\<rparr> else s)
                    (segments pkg)\<rparr>)\<rparr> \<and>
         run (regenerateScene state segment (Inr url)) prev
           = prev\<lparr>scriptPackage :=
                Some (pkg\<lparr>segments :=
                  map (\<lambda>s. if seg_id s = seg_id segment
                            then s\<lparr>imageUrl := Url url, videoUrl := Null, isGenerating := Some False\<rparr>
                            else s)
                    (segments pkg)\<rparr>)\<rparr> \<and>
         snapshots (regenerateScene state segment (Inr url)) prev
           = [prev,
              run (before_issue (regenerateScene state segment (Inr url))) prev,
              run (regenerateScene state segment (Inr url)) prev]"
  using regenerateScene_pending [OF assms] regenerateScene_success [OF assms]
    regenerateScene_snapshots [OF assms]
  by blast

theorem regenerateScene_clears_motion_with_new_image_witness:
  "truthy_str (selectedRefImageUrl a_state) \<and> scriptPackage a_state = Some a_package \<and>
   run (before_issue (regenerateScene a_state seg0 (Inr ''data:new''))) a_state
     = a_state\<lparr>scriptPackage :=
         Some (a_package\<lparr>segments := [seg0\<lparr>isGenerating := Some True\<rparr>, seg1, seg2]\<rparr>)\<rparr> \<and>
   run (regenerateScene a_state seg0 (Inr ''data:new'')) a_state
     = a_state\<lparr>scriptPackage :=
         Some (a_package\<lparr>segments :=
           [seg0\<lparr>imageUrl := Url ''data:new'', videoUrl := Null, isGenerating := Some False\<rparr>,
            seg1, seg2]\<rparr>)\<rparr>"
proof -
  have h1: "truthy_str (selectedRefImageUrl a_state)" by (simp add: a_state_def truthy_str_def)
  have h2: "scriptPackage a_state = Some a_package" by (simp add: a_state_def)
  have ids: "seg_id seg0 = ''seg-0''" "seg_id seg1 = ''seg-1''" "seg_id seg2 = ''seg-2''"
    by (simp_all add: seg0_def seg1_def seg2_def)
  have segs: "segments a_package = [seg0, seg1, seg2]" by (simp add: a_package_def)
  from regenerateScene_clears_motion_with_new_image [OF h1 h2, of seg0 "''data:new''"] h1 h2
  show ?thesis by (simp add: segs ids)
qed

text \<open>
  Regenerating the first scene of the sample state, which has a clip: when the call is
  issued, the scene is marked as generating and its clip is still there.
\<close>

theorem regenerateScene_keeps_clip_while_pending:
  "map videoUrl (segments (the (scriptPackage
      (run (before_issue (regenerateScene a_state seg0 (Inr ''data:new''))) a_state))))
     = [Url ''https://v/0'', Undefined, Undefined] \<and>
   map isGenerating (segments (the (scriptPackage
      (run (before_issue (regenerateScene a_state seg0 (Inr ''data:new''))) a_state))))
     = [Some True, Some False, None]"
  by (simp add: regenerateScene_def before_issue_def a_state_def truthy_str_def updateSegment_def
      a_package_def seg0_def seg1_def seg2_def merge_isGenerating)


lemma regenerateScene_idle:
  "\<not> truthy_str (selectedRefImageUrl state) \<Longrightarrow> run (regenerateScene state segment outcome) prev = prev"
  by (simp add: regenerateScene_def)

lemma regenerateScene_failed:
  assumes "truthy_str (selectedRefImageUrl state)" and "scriptPackage prev = Some pkg"
  shows "scriptPackage (run (regenerateScene state segment (Inl e)) prev)
           = Some (on_segment (seg_id segment) (\<lambda>s. s\<lparr>isGenerating := Some False\<rparr>) pkg)"
  using assms
  by (simp add: regenerateScene_def updateSegment_Some merge_isGenerating on_segment_twice)

lemma regenerateScene_succeeded:
  assumes "truthy_str (selectedRefImageUrl state)" and "scriptPackage prev = Some pkg"
  shows "scriptPackage (run (regenerateScene state segment (Inr url)) prev)
           = Some (on_segment (seg_id segment)
                (\<lambda>s. s\<lparr>imageUrl := Url url, videoUrl := Null, isGenerating := Some False\<rparr>) pkg)"
  using assms
  by (simp add: regenerateScene_def updateSegment_Some merge_isGenerating merge_regenerated
      on_segment_twice)

lemma on_segment_other:
  assumes "j < length (segments pkg)" and "seg_id (segments pkg ! j) \<noteq> ident"
  shows "segments (on_segment ident g pkg) ! j = segments pkg ! j"
  using assms by (simp add: on_segment_def)

lemma on_segment_frame:
  "length (segments (on_segment ident g pkg)) = length (segments pkg)"
  "audioUrl (on_segment ident g pkg) = audioUrl pkg"
  "thumbnailUrl (on_segment ident g pkg) = thumbnailUrl pkg"
  "isAudioGenerating (on_segment ident g pkg) = isAudioGenerating pkg"
  by (simp_all add: on_segment_def)

text \<open>
  Claim C3. Segment ids are distinct (they are \<^verbatim>\<open>seg-<idx>\<close>, see
  \<open>assign_ids_distinct\<close>). Regenerating segment \<open>i\<close>, whatever the call settles to and
  whether or not a reference image is selected, leaves every other segment \<open>j\<close> equal to
  what it was, field by field, keeps the number of segments, and leaves the package's
  audio and thumbnail fields alone.
\<close>

theorem regenerateScene_leaves_siblings:
  assumes "scriptPackage prev = Some pkg"
    and "distinct (map seg_id (segments pkg))"
    and "i < length (segments pkg)" and "j < length (segments pkg)" and "i \<noteq> j"
    and "seg_id segment = seg_id (segments pkg ! i)"
  shows "\<exists>pkg'. scriptPackage (run (regenerateScene state segment outcome) prev) = Some pkg' \<and>
           length (segments pkg') = length (segments pkg) \<and>
           segments pkg' ! j = segments pkg ! j \<and>
           audioUrl pkg' = audioUrl pkg \<and>
           isAudioGenerating pkg' = isAudioGenerating pkg \<and>
           thumbnailUrl pkg' = thumbnailUrl pkg"
proof -
  from assms(2-5) have "map seg_id (segments pkg) ! j \<noteq> map seg_id (segments pkg) ! i"
    by (simp add: nth_eq_iff_index_eq del: nth_map)
  with assms(3,4,6) have other: "seg_id (segments pkg ! j) \<noteq> seg_id segment"
    by simp
  note frame = on_segment_other [OF assms(4) other] on_segment_frame
  show ?thesis
  proof (cases "truthy_str (selectedRefImageUrl state)")
    case False
    with assms(1) show ?thesis by (simp add: regenerateScene_idle)
  next
    case True
    show ?thesis
    proof (cases outcome)
      case (Inl e)
      with regenerateScene_failed [OF True assms(1)] frame show ?thesis by simp
    next
      case (Inr url)
      with regenerateScene_succeeded [OF True assms(1)] frame show ?thesis by simp
    qed
  qed
qed

theorem regenerateScene_leaves_siblings_witness:
  "scriptPackage a_state = Some a_package \<and> distinct (map seg_id (segments a_package)) \<and>
   (\<exists>pkg'. scriptPackage (run (regenerateScene a_state seg0 (Inr ''data:new'')) a_state) = Some pkg' \<and>
           length (segments pkg') = length (segments a_package) \<and>
           segments pkg' ! 1 = segments a_package ! 1 \<and>
           audioUrl pkg' = audioUrl a_package \<and>
           isAudioGenerating pkg' = isAudioGenerating a_package \<and>
           thumbnailUrl pkg' = thumbnailUrl a_package)"
proof -
  have h1: "scriptPackage a_state = Some a_package" by (simp add: a_state_def)
  have h2: "distinct (map seg_id (segments a_package))"
    by (simp add: a_package_def seg0_def seg1_def seg2_def)
  have h3: "0 < length (segments a_package)" and h4: "1 < length (segments a_package)"
    by (simp_all add: a_package_def)
  have h5: "(0::nat) \<noteq> 1" by simp
  have h6: "seg_id seg0 = seg_id (segments a_package ! 0)" by (simp add: a_package_def)
  from regenerateScene_leaves_siblings [OF h1 h2 h3 h4 h5 h6, of a_state "Inr ''data:new''"] h1 h2
  show ?thesis by blast
qed

text \<open>
  Claim C8, as the code has it. \<^verbatim>\<open>animateScene\<close> on a segment whose \<open>imageUrl\<close> is
  missing returns at once: its trace is empty, so it changes nothing in the store (the
  segment's motion state included), issues no call, shows no alert and raises no error.
\<close>

theorem animateScene_without_image_does_nothing:
  assumes "\<not> truthy_url (imageUrl segment)"
  shows "animateScene segment key video = [] \<and>
         run (animateScene segment key video) prev = prev"
  using assms by (simp add: animateScene_def)

theorem animateScene_without_image_does_nothing_witness:
  "\<not> truthy_url (imageUrl seg2) \<and>
   animateScene seg2 (Checked (Inr True)) (Inr ''https://v/2'') = [] \<and>
   run (animateScene seg2 (Checked (Inr True)) (Inr ''https://v/2'')) a_state = a_state"
proof -
  have h: "\<not> truthy_url (imageUrl seg2)" by (simp add: seg2_def)
  from animateScene_without_image_does_nothing [OF h, of "Checked (Inr True)" "Inr ''https://v/2''" a_state] h
  show ?thesis by blast
qed

text \<open>
  On the third scene of the sample state, which has no image, \<^verbatim>\<open>animateScene\<close> neither
  rejects nor alerts: no error of any kind is produced.
\<close>

theorem animateScene_without_image_raises_nothing:
  "\<not> list_ex is_reject (animateScene seg2 (Checked (Inr True)) (Inr ''https://v/2'')) \<and>
   \<not> list_ex is_alert (animateScene seg2 (Checked (Inr True)) (Inr ''https://v/2'')) \<and>
   animateScene seg2 (Checked (Inr True)) (Inr ''https://v/2'') = []"
  by (simp add: animateScene_def seg2_def)



text \<open>The ids that \<^verbatim>\<open>generateScriptPackage\<close> and \<^verbatim>\<open>fetchTrendingNews\<close> assign are
  pairwise distinct.\<close>

lemma assign_ids_distinct: "distinct (map (\<lambda>ob. get_prop ob ''id'') (assign_ids p i xs))"
proof -
  have "\<forall>a < length xs. \<forall>b < length xs. a \<noteq> b \<longrightarrow>
          get_prop (assign_ids p i xs ! a) ''id'' \<noteq> get_prop (assign_ids p i xs ! b) ''id''"
    using toString_inj by (fastforce simp: assign_ids_id)
  then show ?thesis
    by (simp add: distinct_conv_nth length_assign_ids)
qed

section \<open>The production run\<close>

lemma scenes_loop_unfold:
  "scenes_loop segs r scene i = concat (map (scene_iteration segs r scene) [i..<length segs])"
proof (induction segs r scene i rule: scenes_loop.induct)
  case (1 segs r scene i)
  show ?case
  proof (cases "i < length segs")
    case True
    with "1.IH" show ?thesis
      by (subst scenes_loop.simps) (simp add: upt_conv_Cons)
  next
    case False
    then show ?thesis
      by (subst scenes_loop.simps) simp
  qed
qed

lemma gateway_log_append: "gateway_log (xs @ ys) = gateway_log xs @ gateway_log ys"
  by (simp add: gateway_log_def)

lemma gateway_log_concat: "gateway_log (concat xss) = concat (map gateway_log xss)"
  by (induction xss) (simp_all add: gateway_log_append, simp add: gateway_log_def)

lemma gateway_log_scene_iteration:
  "gateway_log (scene_iteration segs r scene i)
     = [Started (GenerateSceneImage r (imagePrompt (segs ! i))),
        Finished (GenerateSceneImage r (imagePrompt (segs ! i)))]"
  by (cases "scene i") (simp_all add: gateway_log_def scene_iteration_def)

lemma map_over_positions: "map (\<lambda>i. f (xs ! i)) [0..<length xs] = map f xs"
  by (rule nth_equalityI) simp_all

lemma gateway_log_scenes_loop:
  "gateway_log (scenes_loop segs r scene 0)
     = concat (map (\<lambda>s. [Started (GenerateSceneImage r (imagePrompt s)),
                           Finished (GenerateSceneImage r (imagePrompt s))]) segs)"
  by (simp add: scenes_loop_unfold gateway_log_concat o_def gateway_log_scene_iteration
      map_over_positions [where f = "\<lambda>s. [Started (GenerateSceneImage r (imagePrompt s)),
                                            Finished (GenerateSceneImage r (imagePrompt s))]"])

lemma scene_iteration_failed:
  assumes "scene i = Inl e" and "scriptPackage prev = Some pkg'"
  shows "run (scene_iteration segs r scene i) prev
           = prev\<lparr>scriptPackage :=
                Some (pkg'\<lparr>segments :=
                  map (\<lambda>s. if seg_id s = seg_id (segs ! i) then s\<lparr>isGenerating := Some False\<rparr> else s)
                    (segments pkg')\<rparr>)\<rparr>"
  using assms
  by (simp add: scene_iteration_def updateSegment_Some merge_isGenerating on_segment_twice)
    (simp add: on_segment_def)

lemma generateProductionAssets_scenes:
  assumes "scriptPackage state = Some pkg"
  shows "drop 5 (generateProductionAssets state r thumb scene)
           = concat (map (scene_iteration (segments pkg) r scene) [0..<length (segments pkg)])"
  using assms by (simp add: generateProductionAssets_def scenes_loop_unfold)

lemma generateProductionAssets_log:
  assumes "scriptPackage state = Some pkg"
  shows "gateway_log (generateProductionAssets state r thumb scene)
           = [Started (GenerateSpeech (fullScriptPara pkg)),
              Started (GenerateThumbnail (thumbnailPrompt pkg)),
              Finished (GenerateThumbnail (thumbnailPrompt pkg))]
             @ concat (map (\<lambda>s. [Started (GenerateSceneImage r (imagePrompt s)),
                                   Finished (GenerateSceneImage r (imagePrompt s))]) (segments pkg))"
proof -
  have "gateway_log (generateProductionAssets state r thumb scene)
          = gateway_log (take 5 (generateProductionAssets state r thumb scene))
            @ gateway_log (scenes_loop (segments pkg) r scene 0)"
    using assms by (simp add: generateProductionAssets_def gateway_log_append [symmetric])
  moreover have "gateway_log (take 5 (generateProductionAssets state r thumb scene))
          = [Started (GenerateSpeech (fullScriptPara pkg)),
              Started (GenerateThumbnail (thumbnailPrompt pkg)),
              Finished (GenerateThumbnail (thumbnailPrompt pkg))]"
    using assms by (cases thumb) (simp_all add: generateProductionAssets_def gateway_log_def)
  ultimately show ?thesis by (simp add: gateway_log_scenes_loop)
qed

text \<open>
  Claim C4. For a package present at render time and whatever the thumbnail and scene
  calls settle to: the gateway sees the narration call started, the thumbnail call started
  and finished, and then for each segment in order its scene-image call started and
  finished, the next one starting only after that; so every segment gets its call,
  failures or not. The trace after the first five events is one loop body per position.
  A body whose call fails changes, in any store, nothing but \<open>isGenerating\<close> (to false)
  of the segments with that position's id.
\<close>

theorem scenes_run_in_order_past_failures:
  assumes "scriptPackage state = Some pkg"
  shows "gateway_log (generateProductionAssets state refUrl thumb scene)
           = [Started (GenerateSpeech (fullScriptPara pkg)),
              Started (GenerateThumbnail (thumbnailPrompt pkg)),
              Finished (GenerateThumbnail (thumbnailPrompt pkg))]
             @ concat (map (\<lambda>s. [Started (GenerateSceneImage refUrl (imagePrompt s)),
                                   Finished (GenerateSceneImage refUrl (imagePrompt s))]) (segments pkg))
         \<and> drop 5 (generateProductionAssets state refUrl thumb scene)
           = concat (map (scene_iteration (segments pkg) refUrl scene) [0..<length (segments pkg)])
         \<and> (\<forall>i e prev pkg'. i < length (segments pkg) \<longrightarrow> scene i = Inl e \<longrightarrow> scriptPackage prev = Some pkg' \<longrightarrow>
              run (scene_iteration (segments pkg) refUrl scene i) prev
                = prev\<lparr>scriptPackage :=
                     Some (pkg'\<lparr>segments :=
                       map (\<lambda>s. if seg_id s = seg_id (segments pkg ! i)
                                 then s\<lparr>isGenerating := Some False\<rparr> else s)
                         (segments pkg')\<rparr>)\<rparr>)"
  using generateProductionAssets_log [OF assms] generateProductionAssets_scenes [OF assms]
    scene_iteration_failed
  by blast

theorem scenes_run_in_order_past_failures_witness:
  "scriptPackage a_state = Some a_package \<and>
   gateway_log (generateProductionAssets a_state ''data:ref'' (Inl (Error ''Thumbnail generation failed'')) second_fails)
     = [Started (GenerateSpeech ''one two three''),
        Started (GenerateThumbnail ''tp''),
        Finished (GenerateThumbnail ''tp''),
        Started (GenerateSceneImage ''data:ref'' ''p0''), Finished (GenerateSceneImage ''data:ref'' ''p0''),
        Started (GenerateSceneImage ''data:ref'' ''p1''), Finished (GenerateSceneImage ''data:ref'' ''p1''),
        Started (GenerateSceneImage ''data:ref'' ''p2''), Finished (GenerateSceneImage ''data:ref'' ''p2'')] \<and>
   run (scene_iteration (segments a_package) ''data:ref'' second_fails 1) a_state = a_state"
proof -
  have h: "scriptPackage a_state = Some a_package" by (simp add: a_state_def)
  note t = scenes_run_in_order_past_failures
             [OF h, of "''data:ref''" "Inl (Error ''Thumbnail generation failed'')" second_fails]
  from t have "gateway_log (generateProductionAssets a_state ''data:ref'' (Inl (Error ''Thumbnail generation failed'')) second_fails)
     = [Started (GenerateSpeech ''one two three''),
        Started (GenerateThumbnail ''tp''),
        Finished (GenerateThumbnail ''tp''),
        Started (GenerateSceneImage ''data:ref'' ''p0''), Finished (GenerateSceneImage ''data:ref'' ''p0''),
        Started (GenerateSceneImage ''data:ref'' ''p1''), Finished (GenerateSceneImage ''data:ref'' ''p1''),
        Started (GenerateSceneImage ''data:ref'' ''p2''), Finished (GenerateSceneImage ''data:ref'' ''p2'')]"
    by (simp add: a_package_def seg0_def seg1_def seg2_def)
  moreover from t h have "run (scene_iteration (segments a_package) ''data:ref'' second_fails 1) a_state
      = a_state\<lparr>scriptPackage :=
                     Some (a_package\<lparr>segments :=
                       map (\<lambda>s. if seg_id s = seg_id (segments a_package ! 1)
                                 then s\<lparr>isGenerating := Some False\<rparr> else s)
                         (segments a_package)\<rparr>)\<rparr>"
    by (simp add: second_fails_def a_package_def)
  then have "run (scene_iteration (segments a_package) ''data:ref'' second_fails 1) a_state = a_state"
    by (simp add: a_state_def a_package_def seg0_def seg1_def seg2_def)
  ultimately show ?thesis using h by blast
qed



section \<open>File names of the bundle\<close>

lemma digit_char_mono: "a < b \<Longrightarrow> b < 10 \<Longrightarrow> digit_char a < digit_char b"
proof -
  have "sorted_wrt (<) ''0123456789''" by simp
  then show "a < b \<Longrightarrow> b < 10 \<Longrightarrow> digit_char a < digit_char b"
    unfolding digit_char_def by (simp add: sorted_wrt_iff_nth_less)
qed

lemma digit_char_is_digit: "d < 10 \<Longrightarrow> digit_char d \<in> set ''0123456789''"
  unfolding digit_char_def by (rule nth_mem) simp

lemma toString_digits: "set (toString n) \<subseteq> set ''0123456789''"
proof (induction n rule: toString.induct)
  case (1 n)
  show ?case
  proof (cases "n < 10")
    case True
    with digit_char_is_digit [of n] show ?thesis by (subst toString.simps) simp
  next
    case False
    with "1.IH" digit_char_is_digit [of "n mod 10"] show ?thesis
      by (subst toString.simps) simp
  qed
qed

lemma toString_two_digits:
  "10 \<le> n \<Longrightarrow> n < 100 \<Longrightarrow> toString n = [digit_char (n div 10), digit_char (n mod 10)]"
  by (subst toString.simps) (simp add: toString_digit)

lemma toString_length_ge2: "10 \<le> n \<Longrightarrow> 2 \<le> length (toString n)"
  by (subst toString.simps) (use toString_nonempty [of "n div 10"] in \<open>simp add: Suc_le_eq\<close>)

lemma toString_hd_nonzero: "0 < n \<Longrightarrow> hd (toString n) \<noteq> CHR ''0''"
proof (induction n rule: toString.induct)
  case (1 n)
  show ?case
  proof (cases "n < 10")
    case True
    with "1.prems" digit_char_inj [of n 0] have "digit_char n \<noteq> digit_char 0" by auto
    with True show ?thesis by (subst toString.simps) (simp add: digit_char_def)
  next
    case False
    then have "0 < n div 10" by simp
    with "1.IH" False have "hd (toString (n div 10)) \<noteq> CHR ''0''" by simp
    with False toString_nonempty [of "n div 10"] show ?thesis
      by (subst toString.simps) simp
  qed
qed

lemma segment_index_small: "i < 9 \<Longrightarrow> segment_index i = [CHR ''0'', digit_char (i + 1)]"
  by (simp add: segment_index_def padStart_def toString_digit)

lemma segment_index_large: "9 \<le> i \<Longrightarrow> segment_index i = toString (i + 1)"
  using toString_length_ge2 [of "i + 1"] by (simp add: segment_index_def padStart_def)

lemma segment_index_two:
  "i < 99 \<Longrightarrow> segment_index i = [digit_char ((i + 1) div 10), digit_char ((i + 1) mod 10)]"
proof (cases "i < 9")
  case True
  then show ?thesis by (simp add: segment_index_small digit_char_def)
next
  case False
  moreover assume "i < 99"
  ultimately show ?thesis by (simp add: segment_index_large toString_two_digits)
qed

lemma segment_index_digits: "set (segment_index i) \<subseteq> set ''0123456789''"
proof (cases "i < 9")
  case True
  with digit_char_is_digit [of "i + 1"] show ?thesis by (simp add: segment_index_small)
next
  case False
  with toString_digits [of "i + 1"] show ?thesis by (simp add: segment_index_large)
qed

lemma segment_index_inj: "segment_index i = segment_index j \<Longrightarrow> i = j"
proof -
  assume eq: "segment_index i = segment_index j"
  have small_large: False if "a < 9" "9 \<le> b" "segment_index a = segment_index b" for a b
  proof -
    from that have "toString (b + 1) = [CHR ''0'', digit_char (a + 1)]"
      by (simp add: segment_index_small segment_index_large)
    then have "hd (toString (b + 1)) = CHR ''0''" by simp
    with toString_hd_nonzero [of "b + 1"] show False by simp
  qed
  show "i = j"
  proof (cases "i < 9")
    case i: True
    show ?thesis
    proof (cases "j < 9")
      case True
      with i eq have "digit_char (i + 1) = digit_char (j + 1)" by (simp add: segment_index_small)
      with i True digit_char_inj [of "i + 1" "j + 1"] show ?thesis by simp
    next
      case False
      with i eq small_large [of i j] show ?thesis by simp
    qed
  next
    case i: False
    show ?thesis
    proof (cases "j < 9")
      case True
      with i eq small_large [of j i] show ?thesis by simp
    next
      case False
      with i eq have "toString (i + 1) = toString (j + 1)" by (simp add: segment_index_large)
      then show ?thesis using toString_inj by fastforce
    qed
  qed
qed

lemma split_at_underscore:
  "CHR ''_'' \<notin> set xs \<Longrightarrow> CHR ''_'' \<notin> set ys \<Longrightarrow> xs @ CHR ''_'' # a = ys @ CHR ''_'' # b \<Longrightarrow> xs = ys \<and> a = b"
proof (induction xs arbitrary: ys)
  case Nil
  then show ?case by (cases ys) auto
next
  case (Cons x xs)
  then show ?case by (cases ys) auto
qed

lemma no_underscore: "CHR ''_'' \<notin> set (segment_index i)"
  using segment_index_digits [of i] by auto

lemma motion_name_inj: "motion_name i = motion_name j \<longleftrightarrow> i = j"
  using split_at_underscore [OF no_underscore no_underscore, of i "''motion.mp4''" j "''motion.mp4''"]
    segment_index_inj [of i j]
  by (auto simp: motion_name_def)

lemma frame_name_inj: "frame_name i = frame_name j \<longleftrightarrow> i = j"
  using split_at_underscore [OF no_underscore no_underscore, of i "''frame.png''" j "''frame.png''"]
    segment_index_inj [of i j]
  by (auto simp: frame_name_def)

lemma motion_not_frame: "motion_name i \<noteq> frame_name j"
  using split_at_underscore [OF no_underscore no_underscore, of i "''motion.mp4''" j "''frame.png''"]
  by (auto simp: motion_name_def frame_name_def)

lemma scene_names_other [simp]:
  "motion_name i \<noteq> ''narration.wav''" "motion_name i \<noteq> ''thumbnail.png''"
  "motion_name i \<noteq> ''production_metadata.json''" "motion_name i \<noteq> ''full_script.txt''"
  "frame_name i \<noteq> ''narration.wav''" "frame_name i \<noteq> ''thumbnail.png''"
  "frame_name i \<noteq> ''production_metadata.json''" "frame_name i \<noteq> ''full_script.txt''"
  by (simp_all add: motion_name_def frame_name_def)

lemma two_digit_order:
  assumes "(m::nat) < n"
  shows "m div 10 < n div 10 \<or> m div 10 = n div 10 \<and> m mod 10 < n mod 10"
proof (cases "m div 10 = n div 10")
  case True
  have "m = 10 * (m div 10) + m mod 10" "n = 10 * (n div 10) + n mod 10" by simp_all
  with True assms have "m mod 10 < n mod 10" by linarith
  with True show ?thesis by simp
next
  case False
  from assms have "m div 10 \<le> n div 10" by (simp add: div_le_mono)
  with False show ?thesis by simp
qed

lemma index_order:
  assumes "i < j" and "j < 99"
  shows "segment_index i @ a < segment_index j @ b"
proof -
  from assms(1) have "i + 1 < j + 1" by simp
  from two_digit_order [OF this]
  have "(i + 1) div 10 < (j + 1) div 10 \<or>
      (i + 1) div 10 = (j + 1) div 10 \<and> (i + 1) mod 10 < (j + 1) mod 10" .
  moreover have "(j + 1) div 10 < 10" using assms by simp
  moreover have "(j + 1) mod 10 < 10" by simp
  ultimately have d: "digit_char ((i + 1) div 10) < digit_char ((j + 1) div 10) \<or>
      digit_char ((i + 1) div 10) = digit_char ((j + 1) div 10) \<and>
      digit_char ((i + 1) mod 10) < digit_char ((j + 1) mod 10)"
    using digit_char_mono [of "(i + 1) div 10" "(j + 1) div 10"]
      digit_char_mono [of "(i + 1) mod 10" "(j + 1) mod 10"]
    by metis
  from assms have i: "segment_index i = [digit_char ((i + 1) div 10), digit_char ((i + 1) mod 10)]"
    and j: "segment_index j = [digit_char ((j + 1) div 10), digit_char ((j + 1) mod 10)]"
    by (simp_all add: segment_index_two)
  from d show ?thesis unfolding i j by auto
qed

lemma prefix_less: "(xs::string) < ys \<Longrightarrow> p @ xs < p @ ys"
  by (induction p) simp_all

lemma scene_name_order:
  assumes "i < j" and "j < 99"
  shows "motion_name i < motion_name j" "motion_name i < frame_name j"
    "frame_name i < motion_name j" "frame_name i < frame_name j"
  unfolding motion_name_def frame_name_def
  by (rule prefix_less, rule index_order [OF assms])+

section \<open>Building the bundle\<close>

lemma fetchAsBlob_isl: "isl (fetchAsBlob net u) \<longleftrightarrow> \<not> fetch_ok net u"
  by (simp add: fetchAsBlob_def fetch_ok_def split: fetched.splits bool.splits)

lemma case_sum_isl: "isl (case x of Inl e \<Rightarrow> Inl e | Inr b \<Rightarrow> Inr (g b)) = isl x"
  by (cases x) simp_all

lemma segment_task_isl:
  "isl (segment_task net seg i) \<longleftrightarrow> (\<exists>u \<in> set (segment_url seg). \<not> fetch_ok net u)"
  by (simp add: segment_task_def segment_url_def case_sum_isl fetchAsBlob_isl)

lemma segment_task_name:
  "segment_task net seg i = Inr r \<Longrightarrow> map_option fst r = entry_name seg i"
  by (cases "fetchAsBlob net (url_string (videoUrl seg))";
      cases "fetchAsBlob net (url_string (imageUrl seg))")
    (auto simp: segment_task_def entry_name_def split: if_splits)

lemma segment_task_blob:
  "segment_task net seg i = Inr (Some (n, f)) \<Longrightarrow>
     \<exists>u b. segment_url seg = [u] \<and> fetchAsBlob net u = Inr b \<and> f = Blob b"
  by (cases "fetchAsBlob net (url_string (videoUrl seg))";
      cases "fetchAsBlob net (url_string (imageUrl seg))")
    (auto simp: segment_task_def segment_url_def split: if_splits)

lemma entry_name_inj: "entry_name s a = Some n \<Longrightarrow> entry_name s' b = Some n \<Longrightarrow> a = b"
  using motion_not_frame [of a b] motion_not_frame [of b a]
  by (auto simp: entry_name_def motion_name_inj frame_name_inj split: if_splits)

lemma add_segments_isl:
  "isl (add_segments net segs i z) \<longleftrightarrow> (\<exists>u \<in> set (concat (map segment_url segs)). \<not> fetch_ok net u)"
proof (induction segs arbitrary: i z)
  case Nil
  show ?case by simp
next
  case (Cons seg rest)
  have split: "(\<exists>u \<in> set (concat (map segment_url (seg # rest))). \<not> fetch_ok net u)
      \<longleftrightarrow> (\<exists>u \<in> set (segment_url seg). \<not> fetch_ok net u)
          \<or> (\<exists>u \<in> set (concat (map segment_url rest)). \<not> fetch_ok net u)"
    by (simp add: bex_Un)
  show ?case
  proof (cases "segment_task net seg i")
    case (Inl e)
    with segment_task_isl [of net seg i] have "\<exists>u \<in> set (segment_url seg). \<not> fetch_ok net u"
      by simp
    with Inl show ?thesis unfolding split by simp
  next
    case (Inr r)
    with segment_task_isl [of net seg i] have ok: "\<not> (\<exists>u \<in> set (segment_url seg). \<not> fetch_ok net u)"
      by simp
    show ?thesis
    proof (cases r)
      case None
      with Inr have "add_segments net (seg # rest) i z = add_segments net rest (Suc i) z"
        by simp
      then have "isl (add_segments net (seg # rest) i z) = isl (add_segments net rest (Suc i) z)"
        by (simp only:)
      also have "\<dots> = (\<exists>u \<in> set (concat (map segment_url rest)). \<not> fetch_ok net u)"
        by (rule Cons.IH)
      finally show ?thesis using ok unfolding split by blast
    next
      case (Some p)
      obtain n f where "p = (n, f)" by (cases p)
      with Some Inr have "add_segments net (seg # rest) i z = add_segments net rest (Suc i) (z(n \<mapsto> f))"
        by simp
      then have "isl (add_segments net (seg # rest) i z)
          = isl (add_segments net rest (Suc i) (z(n \<mapsto> f)))"
        by (simp only:)
      also have "\<dots> = (\<exists>u \<in> set (concat (map segment_url rest)). \<not> fetch_ok net u)"
        by (rule Cons.IH)
      finally show ?thesis using ok unfolding split by blast
    qed
  qed
qed

lemma add_segments_untouched:
  "add_segments net segs i z = Inr z' \<Longrightarrow>
   (\<forall>k < length segs. entry_name (segs ! k) (i + k) \<noteq> Some n) \<Longrightarrow> z' n = z n"
proof (induction segs arbitrary: i z)
  case Nil
  then show ?case by simp
next
  case (Cons seg rest)
  from Cons.prems(2) have here: "entry_name seg i \<noteq> Some n"
    and later: "\<forall>k < length rest. entry_name (rest ! k) (Suc i + k) \<noteq> Some n"
    by force+
  show ?case
  proof (cases "segment_task net seg i")
    case (Inl e)
    with Cons.prems(1) show ?thesis by simp
  next
    case (Inr r)
    show ?thesis
    proof (cases r)
      case None
      with Inr Cons.prems(1) have "add_segments net rest (Suc i) z = Inr z'" by simp
      from Cons.IH [OF this later] show ?thesis .
    next
      case (Some p)
      obtain m f where p: "p = (m, f)" by (cases p)
      with Some Inr Cons.prems(1) have "add_segments net rest (Suc i) (z(m \<mapsto> f)) = Inr z'" by simp
      from Cons.IH [OF this later] have "z' n = (z(m \<mapsto> f)) n" .
      moreover from segment_task_name [OF Inr] Some p here have "m \<noteq> n" by auto
      ultimately show ?thesis by simp
    qed
  qed
qed

lemma add_segments_present:
  "add_segments net segs i z = Inr z' \<Longrightarrow> k < length segs \<Longrightarrow>
   \<exists>r. segment_task net (segs ! k) (i + k) = Inr r \<and>
       (\<forall>n f. r = Some (n, f) \<longrightarrow> z' n = Some f)"
proof (induction segs arbitrary: i z k)
  case Nil
  then show ?case by simp
next
  case (Cons seg rest)
  show ?case
  proof (cases "segment_task net seg i")
    case (Inl e)
    with Cons.prems(1) show ?thesis by simp
  next
    case (Inr r)
    define z1 where "z1 = (case r of None \<Rightarrow> z | Some (n, f) \<Rightarrow> z(n \<mapsto> f))"
    from Inr Cons.prems(1) have rest: "add_segments net rest (Suc i) z1 = Inr z'"
      by (auto simp: z1_def split: option.splits)
    show ?thesis
    proof (cases k)
      case 0
      have "z' n = Some f" if r: "r = Some (n, f)" for n f
      proof -
        from segment_task_name [OF Inr] r have here: "entry_name seg i = Some n" by simp
        have "\<forall>k' < length rest. entry_name (rest ! k') (Suc i + k') \<noteq> Some n"
        proof (intro allI impI notI)
          fix k'
          assume "entry_name (rest ! k') (Suc i + k') = Some n"
          from entry_name_inj [OF here this] show False by simp
        qed
        from add_segments_untouched [OF rest this] r show ?thesis by (simp add: z1_def)
      qed
      with 0 Inr show ?thesis by simp
    next
      case (Suc k')
      with Cons.prems(2) have "k' < length rest" by simp
      from Cons.IH [OF rest this] Suc show ?thesis by simp
    qed
  qed
qed

lemma add_audio_isl:
  "isl (add_audio net pkg z) \<longleftrightarrow> truthy_str (audioUrl pkg) \<and> \<not> fetch_ok net (the (audioUrl pkg))"
  by (simp add: add_audio_def case_sum_isl fetchAsBlob_isl)

lemma add_thumbnail_isl:
  "isl (add_thumbnail net pkg z) \<longleftrightarrow> truthy_str (thumbnailUrl pkg) \<and> \<not> fetch_ok net (the (thumbnailUrl pkg))"
  by (simp add: add_thumbnail_def case_sum_isl fetchAsBlob_isl)

lemma add_audio_Inr:
  assumes "add_audio net pkg z = Inr z1"
  shows "if truthy_str (audioUrl pkg)
         then \<exists>b. fetchAsBlob net (the (audioUrl pkg)) = Inr b \<and> z1 = z(''narration.wav'' \<mapsto> Blob b)
         else z1 = z"
  using assms by (cases "fetchAsBlob net (the (audioUrl pkg))") (auto simp: add_audio_def split: if_splits)

lemma add_thumbnail_Inr:
  assumes "add_thumbnail net pkg z = Inr z1"
  shows "if truthy_str (thumbnailUrl pkg)
         then \<exists>b. fetchAsBlob net (the (thumbnailUrl pkg)) = Inr b \<and> z1 = z(''thumbnail.png'' \<mapsto> Blob b)
         else z1 = z"
  using assms by (cases "fetchAsBlob net (the (thumbnailUrl pkg))") (auto simp: add_thumbnail_def split: if_splits)

lemma entry_name_cases:
  "entry_name s a = Some n \<Longrightarrow>
     n = motion_name a \<and> truthy_url (videoUrl s) \<or>
     n = frame_name a \<and> \<not> truthy_url (videoUrl s) \<and> truthy_url (imageUrl s)"
  by (simp add: entry_name_def split: if_splits)

lemma entry_name_not_fixed:
  "entry_name s a \<noteq> Some ''narration.wav''" "entry_name s a \<noteq> Some ''thumbnail.png''"
  "entry_name s a \<noteq> Some ''production_metadata.json''" "entry_name s a \<noteq> Some ''full_script.txt''"
  by (simp_all add: entry_name_def)

lemma add_segments_fixed:
  assumes "add_segments net segs i z = Inr z'"
    and "n \<in> {''narration.wav'', ''thumbnail.png'', ''production_metadata.json'', ''full_script.txt''}"
  shows "z' n = z n"
proof (rule add_segments_untouched [OF assms(1)])
  from assms(2) show "\<forall>k<length segs. entry_name (segs ! k) (i + k) \<noteq> Some n"
    using entry_name_not_fixed by auto
qed

lemma add_segments_motion:
  assumes "add_segments net segs 0 z = Inr z'" and "k < length segs" and "z (motion_name k) = None"
  shows "if truthy_url (videoUrl (segs ! k))
         then \<exists>b. fetchAsBlob net (url_string (videoUrl (segs ! k))) = Inr b \<and> z' (motion_name k) = Some (Blob b)
         else z' (motion_name k) = None"
proof (cases "truthy_url (videoUrl (segs ! k))")
  case True
  from add_segments_present [OF assms(1,2)]
  obtain r where r: "segment_task net (segs ! k) k = Inr r"
    and z': "\<forall>n f. r = Some (n, f) \<longrightarrow> z' n = Some f"
    by auto
  from r True obtain b where "fetchAsBlob net (url_string (videoUrl (segs ! k))) = Inr b"
    and "r = Some (motion_name k, Blob b)"
    by (cases "fetchAsBlob net (url_string (videoUrl (segs ! k)))") (auto simp: segment_task_def)
  with z' True show ?thesis by simp
next
  case False
  have "\<forall>k' < length segs. entry_name (segs ! k') (0 + k') \<noteq> Some (motion_name k)"
  proof (intro allI impI notI)
    fix k'
    assume "entry_name (segs ! k') (0 + k') = Some (motion_name k)"
    from entry_name_cases [OF this] False motion_not_frame [of k k'] show False
      by (auto simp: motion_name_inj)
  qed
  from add_segments_untouched [OF assms(1) this] assms(3) False show ?thesis by simp
qed

lemma add_segments_frame:
  assumes "add_segments net segs 0 z = Inr z'" and "k < length segs" and "z (frame_name k) = None"
  shows "if \<not> truthy_url (videoUrl (segs ! k)) \<and> truthy_url (imageUrl (segs ! k))
         then \<exists>b. fetchAsBlob net (url_string (imageUrl (segs ! k))) = Inr b \<and> z' (frame_name k) = Some (Blob b)
         else z' (frame_name k) = None"
proof (cases "\<not> truthy_url (videoUrl (segs ! k)) \<and> truthy_url (imageUrl (segs ! k))")
  case True
  from add_segments_present [OF assms(1,2)]
  obtain r where r: "segment_task net (segs ! k) k = Inr r"
    and z': "\<forall>n f. r = Some (n, f) \<longrightarrow> z' n = Some f"
    by auto
  from r True obtain b where "fetchAsBlob net (url_string (imageUrl (segs ! k))) = Inr b"
    and "r = Some (frame_name k, Blob b)"
    by (cases "fetchAsBlob net (url_string (imageUrl (segs ! k)))") (auto simp: segment_task_def)
  with z' True show ?thesis by simp
next
  case False
  have "\<forall>k' < length segs. entry_name (segs ! k') (0 + k') \<noteq> Some (frame_name k)"
  proof (intro allI impI notI)
    fix k'
    assume "entry_name (segs ! k') (0 + k') = Some (frame_name k)"
    from entry_name_cases [OF this] False motion_not_frame [of k' k] show False
      by (auto simp: frame_name_inj)
  qed
  from add_segments_untouched [OF assms(1) this] assms(3) False show ?thesis by simp
qed

lemma add_segments_nothing_else:
  assumes "add_segments net segs 0 z = Inr z'" and "z' n \<noteq> None"
  shows "z n \<noteq> None \<or> (\<exists>k < length segs. n = motion_name k \<or> n = frame_name k)"
proof (rule ccontr)
  assume neg: "\<not> ?thesis"
  have "\<forall>k < length segs. entry_name (segs ! k) (0 + k) \<noteq> Some n"
  proof (intro allI impI notI)
    fix k
    assume "k < length segs" and "entry_name (segs ! k) (0 + k) = Some n"
    with entry_name_cases [of "segs ! k" k n] neg show False by auto
  qed
  from add_segments_untouched [OF assms(1) this] neg assms(2) show False by simp
qed

lemma build_zip_Inr:
  assumes "build_zip net now pkg = Inr z"
  shows "\<exists>z1 z2 z3. add_audio net pkg Map.empty = Inr z1 \<and> add_thumbnail net pkg z1 = Inr z2 \<and>
           add_segments net (segments pkg) 0 z2 = Inr z3 \<and>
           z = z3(''production_metadata.json'' \<mapsto>
                    MetaJson \<lparr>meta_title = title pkg, meta_description = description pkg,
                              meta_tags = tags pkg, meta_script = fullScriptPara pkg,
                              meta_cta = cta pkg, productionDate = now\<rparr>,
                  ''full_script.txt'' \<mapsto> Text (fullScriptPara pkg))"
proof (cases "add_audio net pkg Map.empty")
  case (Inl e)
  with assms show ?thesis by (simp add: build_zip_def)
next
  case z1: (Inr z1)
  show ?thesis
  proof (cases "add_thumbnail net pkg z1")
    case (Inl e)
    with assms z1 show ?thesis by (simp add: build_zip_def)
  next
    case z2: (Inr z2)
    show ?thesis
    proof (cases "add_segments net (segments pkg) 0 z2")
      case (Inl e)
      with assms z1 z2 show ?thesis by (simp add: build_zip_def)
    next
      case (Inr z3)
      with assms z1 z2 show ?thesis by (simp add: build_zip_def)
    qed
  qed
qed

lemma segment_url_fail:
  "(\<exists>u \<in> set (segment_url s). \<not> fetch_ok net u) \<longleftrightarrow>
     truthy_url (videoUrl s) \<and> \<not> fetch_ok net (url_string (videoUrl s)) \<or>
     \<not> truthy_url (videoUrl s) \<and> truthy_url (imageUrl s) \<and> \<not> fetch_ok net (url_string (imageUrl s))"
  by (simp add: segment_url_def)

lemma segment_urls_fail:
  "(\<exists>u \<in> set (concat (map segment_url segs)). \<not> fetch_ok net u) \<longleftrightarrow>
   (\<exists>s \<in> set segs.
      truthy_url (videoUrl s) \<and> \<not> fetch_ok net (url_string (videoUrl s)) \<or>
      \<not> truthy_url (videoUrl s) \<and> truthy_url (imageUrl s) \<and> \<not> fetch_ok net (url_string (imageUrl s)))"
proof -
  have "(\<exists>u \<in> set (concat (map segment_url segs)). \<not> fetch_ok net u)
      \<longleftrightarrow> (\<exists>s \<in> set segs. \<exists>u \<in> set (segment_url s). \<not> fetch_ok net u)"
    by auto
  then show ?thesis by (simp only: segment_url_fail)
qed

lemma build_zip_isl:
  "isl (build_zip net now pkg) \<longleftrightarrow>
     truthy_str (audioUrl pkg) \<and> \<not> fetch_ok net (the (audioUrl pkg)) \<or>
     truthy_str (thumbnailUrl pkg) \<and> \<not> fetch_ok net (the (thumbnailUrl pkg)) \<or>
     (\<exists>s \<in> set (segments pkg).
        truthy_url (videoUrl s) \<and> \<not> fetch_ok net (url_string (videoUrl s)) \<or>
        \<not> truthy_url (videoUrl s) \<and> truthy_url (imageUrl s) \<and> \<not> fetch_ok net (url_string (imageUrl s)))"
proof (cases "add_audio net pkg Map.empty")
  case (Inl e)
  with add_audio_isl [of net pkg Map.empty] show ?thesis by (simp add: build_zip_def)
next
  case z1: (Inr z1)
  with add_audio_isl [of net pkg Map.empty]
  have a: "\<not> (truthy_str (audioUrl pkg) \<and> \<not> fetch_ok net (the (audioUrl pkg)))" by simp
  show ?thesis
  proof (cases "add_thumbnail net pkg z1")
    case (Inl e)
    with add_thumbnail_isl [of net pkg z1] z1 show ?thesis by (simp add: build_zip_def)
  next
    case z2: (Inr z2)
    with add_thumbnail_isl [of net pkg z1]
    have t: "\<not> (truthy_str (thumbnailUrl pkg) \<and> \<not> fetch_ok net (the (thumbnailUrl pkg)))" by simp
    have "isl (build_zip net now pkg) = isl (add_segments net (segments pkg) 0 z2)"
      using z1 z2 by (cases "add_segments net (segments pkg) 0 z2") (simp_all add: build_zip_def)
    with a t show ?thesis
      by (simp only: add_segments_isl segment_urls_fail) blast
  qed
qed

lemma build_zip_entries:
  assumes "build_zip net now pkg = Inr z"
  shows "if truthy_str (audioUrl pkg)
         then \<exists>b. fetchAsBlob net (the (audioUrl pkg)) = Inr b \<and> z ''narration.wav'' = Some (Blob b)
         else z ''narration.wav'' = None"
    and "if truthy_str (thumbnailUrl pkg)
         then \<exists>b. fetchAsBlob net (the (thumbnailUrl pkg)) = Inr b \<and> z ''thumbnail.png'' = Some (Blob b)
         else z ''thumbnail.png'' = None"
    and "k < length (segments pkg) \<Longrightarrow>
         (if truthy_url (videoUrl (segments pkg ! k))
          then \<exists>b. fetchAsBlob net (url_string (videoUrl (segments pkg ! k))) = Inr b \<and>
                   z (motion_name k) = Some (Blob b)
          else z (motion_name k) = None)"
    and "k < length (segments pkg) \<Longrightarrow>
         (if \<not> truthy_url (videoUrl (segments pkg ! k)) \<and> truthy_url (imageUrl (segments pkg ! k))
          then \<exists>b. fetchAsBlob net (url_string (imageUrl (segments pkg ! k))) = Inr b \<and>
                   z (frame_name k) = Some (Blob b)
          else z (frame_name k) = None)"
    and "z n \<noteq> None \<Longrightarrow>
         n \<in> {''narration.wav'', ''thumbnail.png'', ''production_metadata.json'', ''full_script.txt''} \<or>
         (\<exists>k < length (segments pkg). n = motion_name k \<or> n = frame_name k)"
    and "z ''full_script.txt'' = Some (Text (fullScriptPara pkg))"
    and "z ''production_metadata.json''
           = Some (MetaJson \<lparr>meta_title = title pkg, meta_description = description pkg,
                              meta_tags = tags pkg, meta_script = fullScriptPara pkg,
                              meta_cta = cta pkg, productionDate = now\<rparr>)"
proof -
  from build_zip_Inr [OF assms] obtain z1 z2 z3
    where z1: "add_audio net pkg Map.empty = Inr z1"
      and z2: "add_thumbnail net pkg z1 = Inr z2"
      and z3: "add_segments net (segments pkg) 0 z2 = Inr z3"
      and z: "z = z3(''production_metadata.json'' \<mapsto>
                    MetaJson \<lparr>meta_title = title pkg, meta_description = description pkg,
                              meta_tags = tags pkg, meta_script = fullScriptPara pkg,
                              meta_cta = cta pkg, productionDate = now\<rparr>,
                  ''full_script.txt'' \<mapsto> Text (fullScriptPara pkg))"
    by blast
  note a = add_audio_Inr [OF z1] and t = add_thumbnail_Inr [OF z2]
  have scene_free: "z2 (motion_name k) = None" "z2 (frame_name k) = None" for k
    using a t by (auto split: if_splits)
  have z_scene: "z (motion_name k) = z3 (motion_name k)" "z (frame_name k) = z3 (frame_name k)" for k
    by (simp_all add: z)
  have "z ''narration.wav'' = z3 ''narration.wav''" by (simp add: z)
  also have "\<dots> = z2 ''narration.wav''" by (rule add_segments_fixed [OF z3]) simp
  also have "\<dots> = z1 ''narration.wav''" using t by (auto split: if_splits)
  finally have n: "z ''narration.wav'' = z1 ''narration.wav''" .
  from a show "if truthy_str (audioUrl pkg)
         then \<exists>b. fetchAsBlob net (the (audioUrl pkg)) = Inr b \<and> z ''narration.wav'' = Some (Blob b)
         else z ''narration.wav'' = None"
    unfolding n by (auto split: if_splits)
  have "z ''thumbnail.png'' = z3 ''thumbnail.png''" by (simp add: z)
  also have "\<dots> = z2 ''thumbnail.png''" by (rule add_segments_fixed [OF z3]) simp
  finally have th: "z ''thumbnail.png'' = z2 ''thumbnail.png''" .
  from a t show "if truthy_str (thumbnailUrl pkg)
         then \<exists>b. fetchAsBlob net (the (thumbnailUrl pkg)) = Inr b \<and> z ''thumbnail.png'' = Some (Blob b)
         else z ''thumbnail.png'' = None"
    unfolding th by (auto split: if_splits)
  show "k < length (segments pkg) \<Longrightarrow>
         (if truthy_url (videoUrl (segments pkg ! k))
          then \<exists>b. fetchAsBlob net (url_string (videoUrl (segments pkg ! k))) = Inr b \<and>
                   z (motion_name k) = Some (Blob b)
          else z (motion_name k) = None)"
    unfolding z_scene by (rule add_segments_motion [OF z3 _ scene_free(1)])
  show "k < length (segments pkg) \<Longrightarrow>
         (if \<not> truthy_url (videoUrl (segments pkg ! k)) \<and> truthy_url (imageUrl (segments pkg ! k))
          then \<exists>b. fetchAsBlob net (url_string (imageUrl (segments pkg ! k))) = Inr b \<and>
                   z (frame_name k) = Some (Blob b)
          else z (frame_name k) = None)"
    unfolding z_scene by (rule add_segments_frame [OF z3 _ scene_free(2)])
  show "z ''full_script.txt'' = Some (Text (fullScriptPara pkg))" by (simp add: z)
  show "z ''production_metadata.json''
           = Some (MetaJson \<lparr>meta_title = title pkg, meta_description = description pkg,
                              meta_tags = tags pkg, meta_script = fullScriptPara pkg,
                              meta_cta = cta pkg, productionDate = now\<rparr>)"
    by (simp add: z)
  show "n \<in> {''narration.wav'', ''thumbnail.png'', ''production_metadata.json'', ''full_script.txt''} \<or>
         (\<exists>k < length (segments pkg). n = motion_name k \<or> n = frame_name k)" if "z n \<noteq> None"
  proof (rule ccontr)
    assume neg: "\<not> ?thesis"
    with that have "z3 n \<noteq> None" by (simp add: z)
    from add_segments_nothing_else [OF z3 this] neg have "z2 n \<noteq> None" by blast
    with a t neg show False by (auto split: if_splits)
  qed
qed

lemma downloadProduction_build:
  "scriptPackage state = Some pkg \<Longrightarrow>
   downloadProduction state net generateAsync now
     = (case build_zip net now pkg of
          Inl e \<Rightarrow> BundleAlert
        | Inr z \<Rightarrow>
            if generateAsync z = None \<and> title pkg \<noteq> None
            then Archive (download_name (the (title pkg))) z else BundleAlert)"
  by (auto simp: downloadProduction_def split: sum.splits option.splits)

lemma downloadProduction_archive:
  assumes "scriptPackage state = Some pkg"
    and "downloadProduction state net generateAsync now = Archive name z"
  shows "build_zip net now pkg = Inr z"
  using assms(2) unfolding downloadProduction_build [OF assms(1)]
  by (cases "build_zip net now pkg") (simp_all split: if_splits)

lemma fetch_ok_ok_net: "fetch_ok ok_net u"
  by (simp add: fetch_ok_def ok_net_def)

lemma fetchAsBlob_ok_net: "fetchAsBlob ok_net u = Inr (''bytes of '' @ u)"
  by (simp add: fetchAsBlob_def ok_net_def)

text \<open>
  Claim C6. With a package in the state: when the fetch of a stored artifact fails (the
  narration, the thumbnail, a segment's clip, or the frame of a segment that has no
  clip), \<^verbatim>\<open>downloadProduction\<close> ends in the alert and no archive is handed over,
  whatever the rest would have done. When no such fetch fails, the files are put
  together, and what happens next depends on nothing but the packing by JSZip and the
  title: with both in order the archive is handed over, otherwise the alert is shown. A
  missing artifact is never fetched and takes no part in either condition, so it cannot
  make the build fail.
\<close>

theorem bundle_aborts_when_a_stored_artifact_cannot_be_fetched:
  assumes "scriptPackage state = Some pkg"
  shows "(truthy_str (audioUrl pkg) \<and> \<not> fetch_ok net (the (audioUrl pkg)) \<or>
          truthy_str (thumbnailUrl pkg) \<and> \<not> fetch_ok net (the (thumbnailUrl pkg)) \<or>
          (\<exists>s \<in> set (segments pkg).
             truthy_url (videoUrl s) \<and> \<not> fetch_ok net (url_string (videoUrl s)) \<or>
             \<not> truthy_url (videoUrl s) \<and> truthy_url (imageUrl s) \<and>
               \<not> fetch_ok net (url_string (imageUrl s)))
          \<longrightarrow> downloadProduction state net generateAsync now = BundleAlert) \<and>
         (\<not> (truthy_str (audioUrl pkg) \<and> \<not> fetch_ok net (the (audioUrl pkg)) \<or>
             truthy_str (thumbnailUrl pkg) \<and> \<not> fetch_ok net (the (thumbnailUrl pkg)) \<or>
             (\<exists>s \<in> set (segments pkg).
                truthy_url (videoUrl s) \<and> \<not> fetch_ok net (url_string (videoUrl s)) \<or>
                \<not> truthy_url (videoUrl s) \<and> truthy_url (imageUrl s) \<and>
                  \<not> fetch_ok net (url_string (imageUrl s))))
          \<longrightarrow> (\<exists>z. build_zip net now pkg = Inr z \<and>
                 downloadProduction state net generateAsync now
                   = (if generateAsync z = None \<and> title pkg \<noteq> None
                      then Archive (download_name (the (title pkg))) z else BundleAlert)))"
proof (intro conjI impI)
  assume "truthy_str (audioUrl pkg) \<and> \<not> fetch_ok net (the (audioUrl pkg)) \<or>
          truthy_str (thumbnailUrl pkg) \<and> \<not> fetch_ok net (the (thumbnailUrl pkg)) \<or>
          (\<exists>s \<in> set (segments pkg).
             truthy_url (videoUrl s) \<and> \<not> fetch_ok net (url_string (videoUrl s)) \<or>
             \<not> truthy_url (videoUrl s) \<and> truthy_url (imageUrl s) \<and>
               \<not> fetch_ok net (url_string (imageUrl s)))"
  with build_zip_isl [of net now pkg] have "isl (build_zip net now pkg)" by blast
  then show "downloadProduction state net generateAsync now = BundleAlert"
    by (cases "build_zip net now pkg") (simp_all add: downloadProduction_build [OF assms])
next
  assume "\<not> (truthy_str (audioUrl pkg) \<and> \<not> fetch_ok net (the (audioUrl pkg)) \<or>
             truthy_str (thumbnailUrl pkg) \<and> \<not> fetch_ok net (the (thumbnailUrl pkg)) \<or>
             (\<exists>s \<in> set (segments pkg).
                truthy_url (videoUrl s) \<and> \<not> fetch_ok net (url_string (videoUrl s)) \<or>
                \<not> truthy_url (videoUrl s) \<and> truthy_url (imageUrl s) \<and>
                  \<not> fetch_ok net (url_string (imageUrl s))))"
  with build_zip_isl [of net now pkg] have "\<not> isl (build_zip net now pkg)" by blast
  then obtain z where z: "build_zip net now pkg = Inr z"
    by (cases "build_zip net now pkg") simp_all
  then have "downloadProduction state net generateAsync now
               = (if generateAsync z = None \<and> title pkg \<noteq> None
                  then Archive (download_name (the (title pkg))) z else BundleAlert)"
    by (simp add: downloadProduction_build [OF assms])
  with z show "\<exists>z. build_zip net now pkg = Inr z \<and>
                 downloadProduction state net generateAsync now
                   = (if generateAsync z = None \<and> title pkg \<noteq> None
                      then Archive (download_name (the (title pkg))) z else BundleAlert)"
    by blast
qed

lemma download_name_sample: "download_name ''A title'' = ''ShortsAI_Production_A_title.zip''"
  by (simp add: download_name_def is_space_def)

text \<open>
  The sample state when the first clip has expired; a package with no artifact at all
  while the network is down; and a package whose title is no string, with every fetch in
  order.
\<close>

theorem bundle_aborts_when_a_stored_artifact_cannot_be_fetched_witness:
  "scriptPackage a_state = Some a_package \<and>
   downloadProduction a_state clip_expired packs ''2026'' = BundleAlert \<and>
   scriptPackage bare_state = Some (a_package\<lparr>audioUrl := None, segments := [seg2]\<rparr>) \<and>
   downloadProduction bare_state offline packs ''2026''
     = Archive ''ShortsAI_Production_A_title.zip''
         (archive_of (downloadProduction bare_state offline packs ''2026'')) \<and>
   scriptPackage untitled_state = Some (a_package\<lparr>title := None\<rparr>) \<and>
   downloadProduction untitled_state ok_net packs ''2026'' = BundleAlert"
proof -
  have h1: "scriptPackage a_state = Some a_package" by (simp add: a_state_def)
  have h2: "scriptPackage bare_state = Some (a_package\<lparr>audioUrl := None, segments := [seg2]\<rparr>)"
    by (simp add: bare_state_def)
  have h3: "scriptPackage untitled_state = Some (a_package\<lparr>title := None\<rparr>)"
    by (simp add: untitled_state_def)
  have "seg0 \<in> set (segments a_package)" by (simp add: a_package_def)
  moreover have "truthy_url (videoUrl seg0) \<and> \<not> fetch_ok clip_expired (url_string (videoUrl seg0))"
    by (simp add: seg0_def clip_expired_def fetch_ok_def)
  ultimately have a: "downloadProduction a_state clip_expired packs ''2026'' = BundleAlert"
    using bundle_aborts_when_a_stored_artifact_cannot_be_fetched
            [OF h1, of clip_expired packs "''2026''"]
    by blast
  from bundle_aborts_when_a_stored_artifact_cannot_be_fetched [OF h2, of offline packs "''2026''"]
  obtain z where "downloadProduction bare_state offline packs ''2026''
                    = Archive ''ShortsAI_Production_A_title.zip'' z"
    by (auto simp: a_package_def seg2_def truthy_str_def packs_def download_name_sample)
  then have b: "downloadProduction bare_state offline packs ''2026''
     = Archive ''ShortsAI_Production_A_title.zip''
         (archive_of (downloadProduction bare_state offline packs ''2026''))"
    by (simp add: archive_of_def)
  from bundle_aborts_when_a_stored_artifact_cannot_be_fetched [OF h3, of ok_net packs "''2026''"]
  have c: "downloadProduction untitled_state ok_net packs ''2026'' = BundleAlert"
    by (auto simp: fetch_ok_ok_net)
  from h1 a h2 b h3 c show ?thesis by blast
qed

text \<open>
  Claim C5, as the code has it. In the archive that \<^verbatim>\<open>downloadProduction\<close> hands over:
  \<^verbatim>\<open>narration.wav\<close> is there, with the fetched audio, exactly when \<open>audioUrl\<close> is stored;
  \<^verbatim>\<open>thumbnail.png\<close> likewise; the segment at position \<open>i\<close> has its clip under
  \<open>motion_name i\<close> exactly when it has a \<open>videoUrl\<close>, and its frame under \<open>frame_name i\<close>
  exactly when it has no \<open>videoUrl\<close> but an \<open>imageUrl\<close>, so never both; and no file
  exists beyond these, the metadata and the script text. Only the stored URLs decide, the
  \<open>isGenerating\<close> flags are not read. Up to position 98 (index 99) the index in the name
  has two digits, and the names of an earlier segment come before those of a later one in
  string order.
\<close>

theorem bundle_has_one_entry_per_stored_artifact:
  assumes "scriptPackage state = Some pkg"
    and "downloadProduction state net generateAsync now = Archive name z"
  shows "(if truthy_str (audioUrl pkg)
          then \<exists>b. fetchAsBlob net (the (audioUrl pkg)) = Inr b \<and> z ''narration.wav'' = Some (Blob b)
          else z ''narration.wav'' = None) \<and>
         (if truthy_str (thumbnailUrl pkg)
          then \<exists>b. fetchAsBlob net (the (thumbnailUrl pkg)) = Inr b \<and> z ''thumbnail.png'' = Some (Blob b)
          else z ''thumbnail.png'' = None) \<and>
         (\<forall>i < length (segments pkg).
            (if truthy_url (videoUrl (segments pkg ! i))
             then \<exists>b. fetchAsBlob net (url_string (videoUrl (segments pkg ! i))) = Inr b \<and>
                      z (motion_name i) = Some (Blob b)
             else z (motion_name i) = None) \<and>
            (if \<not> truthy_url (videoUrl (segments pkg ! i)) \<and> truthy_url (imageUrl (segments pkg ! i))
             then \<exists>b. fetchAsBlob net (url_string (imageUrl (segments pkg ! i))) = Inr b \<and>
                      z (frame_name i) = Some (Blob b)
             else z (frame_name i) = None)) \<and>
         (\<forall>n. z n \<noteq> None \<longrightarrow>
            n \<in> {''narration.wav'', ''thumbnail.png'', ''production_metadata.json'', ''full_script.txt''} \<or>
            (\<exists>i < length (segments pkg). n = motion_name i \<or> n = frame_name i)) \<and>
         (\<forall>i j. i < j \<longrightarrow> j < 99 \<longrightarrow>
            length (segment_index i) = 2 \<and> length (segment_index j) = 2 \<and>
            motion_name i < motion_name j \<and> motion_name i < frame_name j \<and>
            frame_name i < motion_name j \<and> frame_name i < frame_name j)"
proof -
  from assms have b: "build_zip net now pkg = Inr z" by (rule downloadProduction_archive)
  note e = build_zip_entries [OF b]
  have order: "length (segment_index i) = 2 \<and> length (segment_index j) = 2 \<and>
            motion_name i < motion_name j \<and> motion_name i < frame_name j \<and>
            frame_name i < motion_name j \<and> frame_name i < frame_name j" if "i < j" "j < 99" for i j
    using that scene_name_order [OF that] by (simp add: segment_index_two)
  from e(1) e(2) e(3) e(4) e(5) order show ?thesis by blast
qed


lemma ok_net_builds:
  assumes "scriptPackage state = Some pkg" and "title pkg = Some t"
  shows "downloadProduction state ok_net packs now
           = Archive (download_name t) (archive_of (downloadProduction state ok_net packs now))"
proof -
  have "\<not> isl (build_zip ok_net now pkg)"
    by (simp add: build_zip_isl fetch_ok_ok_net)
  then obtain z where "build_zip ok_net now pkg = Inr z"
    by (cases "build_zip ok_net now pkg") simp_all
  with assms show ?thesis by (simp add: downloadProduction_build archive_of_def packs_def)
qed

theorem bundle_has_one_entry_per_stored_artifact_witness:
  "scriptPackage a_state = Some a_package \<and>
   downloadProduction a_state ok_net packs ''2026''
     = Archive ''ShortsAI_Production_A_title.zip''
         (archive_of (downloadProduction a_state ok_net packs ''2026'')) \<and>
   archive_of (downloadProduction a_state ok_net packs ''2026'') ''narration.wav''
     = Some (Blob ''bytes of blob:audio'') \<and>
   archive_of (downloadProduction a_state ok_net packs ''2026'') ''thumbnail.png'' = None \<and>
   archive_of (downloadProduction a_state ok_net packs ''2026'') (motion_name 0)
     = Some (Blob ''bytes of https://v/0'') \<and>
   archive_of (downloadProduction a_state ok_net packs ''2026'') (frame_name 0) = None \<and>
   archive_of (downloadProduction a_state ok_net packs ''2026'') (motion_name 1) = None \<and>
   archive_of (downloadProduction a_state ok_net packs ''2026'') (frame_name 1)
     = Some (Blob ''bytes of data:img1'') \<and>
   archive_of (downloadProduction a_state ok_net packs ''2026'') (motion_name 2) = None \<and>
   archive_of (downloadProduction a_state ok_net packs ''2026'') (frame_name 2) = None \<and>
   motion_name 0 < frame_name 1 \<and> frame_name 1 < frame_name 2"
proof -
  let ?z = "archive_of (downloadProduction a_state ok_net packs ''2026'')"
  have h1: "scriptPackage a_state = Some a_package" by (simp add: a_state_def)
  have h2: "downloadProduction a_state ok_net packs ''2026''
              = Archive ''ShortsAI_Production_A_title.zip'' ?z"
    using ok_net_builds [OF h1, of "''A title''" "''2026''"]
    by (simp add: a_package_def download_name_sample)
  note t = bundle_has_one_entry_per_stored_artifact [OF h1 h2]
  note scenes = t [THEN conjunct2, THEN conjunct2, THEN conjunct1, rule_format]
  have segs: "segments a_package = [seg0, seg1, seg2]" by (simp add: a_package_def)
  from t have "?z ''narration.wav'' = Some (Blob ''bytes of blob:audio'')"
    and "?z ''thumbnail.png'' = None"
    by (simp_all add: a_package_def truthy_str_def fetchAsBlob_ok_net)
  moreover from scenes [of 0] have "?z (motion_name 0) = Some (Blob ''bytes of https://v/0'')"
    and "?z (frame_name 0) = None"
    by (simp_all add: segs seg0_def fetchAsBlob_ok_net)
  moreover from scenes [of 1] have "?z (motion_name 1) = None"
    and "?z (frame_name 1) = Some (Blob ''bytes of data:img1'')"
    by (simp_all add: segs seg1_def fetchAsBlob_ok_net)
  moreover from scenes [of 2] have "?z (motion_name 2) = None"
    and "?z (frame_name 2) = None"
    by (simp_all add: segs seg2_def)
  moreover from t have "motion_name 0 < frame_name 1" and "frame_name 1 < frame_name 2"
    by simp_all
  ultimately show ?thesis using h1 h2 by blast
qed

lemma toString_100: "toString 100 = ''100''"
  by (simp add: toString.simps digit_char_def)

lemma toString_11: "toString 11 = ''11''"
  by (simp add: toString.simps digit_char_def)

lemma frame_name_99: "frame_name 99 = ''scenes/segment_100_frame.png''"
  by (simp add: frame_name_def segment_index_def padStart_def toString_100)

lemma frame_name_10: "frame_name 10 = ''scenes/segment_11_frame.png''"
  by (simp add: frame_name_def segment_index_def padStart_def toString_11)

text \<open>
  A package of a hundred scenes, each with a frame: the file of the hundredth scene has
  a three-digit index, and its name sorts before that of the eleventh scene.
\<close>

theorem hundredth_scene_sorts_before_eleventh:
  "length (segments long_package) = 100 \<and>
   frame_name 99 = ''scenes/segment_100_frame.png'' \<and>
   frame_name 10 = ''scenes/segment_11_frame.png'' \<and>
   downloadProduction long_state ok_net packs ''2026''
     = Archive ''ShortsAI_Production_A_title.zip''
         (archive_of (downloadProduction long_state ok_net packs ''2026'')) \<and>
   archive_of (downloadProduction long_state ok_net packs ''2026'') (frame_name 99)
     = Some (Blob ''bytes of data:img1'') \<and>
   archive_of (downloadProduction long_state ok_net packs ''2026'') (frame_name 10)
     = Some (Blob ''bytes of data:img1'') \<and>
   frame_name 99 < frame_name 10"
proof -
  let ?z = "archive_of (downloadProduction long_state ok_net packs ''2026'')"
  have h1: "scriptPackage long_state = Some long_package" by (simp add: long_state_def)
  have h2: "downloadProduction long_state ok_net packs ''2026''
              = Archive ''ShortsAI_Production_A_title.zip'' ?z"
    using ok_net_builds [OF h1, of "''A title''" "''2026''"]
    by (simp add: long_package_def a_package_def download_name_sample)
  have b: "build_zip ok_net ''2026'' long_package = Inr ?z"
    by (rule downloadProduction_archive [OF h1 h2])
  have len: "length (segments long_package) = 100" by (simp add: long_package_def)
  have seg: "imageUrl (segments long_package ! k) = Url ''data:img1'' \<and>
             videoUrl (segments long_package ! k) = Undefined" if "k < 100" for k
    using that by (simp add: long_package_def seg1_def)
  have "?z (frame_name k) = Some (Blob ''bytes of data:img1'')" if "k < 100" for k
    using build_zip_entries(4) [OF b, of k] seg [OF that] that len
    by (simp add: fetchAsBlob_ok_net)
  then have "?z (frame_name 99) = Some (Blob ''bytes of data:img1'')"
    and "?z (frame_name 10) = Some (Blob ''bytes of data:img1'')"
    by simp_all
  moreover have "frame_name 99 < frame_name 10"
    by (simp add: frame_name_99 frame_name_10)
  ultimately show ?thesis using len h2 frame_name_99 frame_name_10 by blast
qed


section \<open>The news stage\<close>

lemma updaters_append: "updaters (xs @ ys) = updaters xs @ updaters ys"
  by (induction xs rule: updaters.induct) simp_all

lemma updaters_concat: "set (updaters (concat xss)) = (\<Union>xs \<in> set xss. set (updaters xs))"
  by (induction xss) (simp_all add: updaters_append)

lemma keeps_updateSegment: "keeps (updateSegment ident u)"
  by (simp add: keeps_def no_ideas_at_news_def updateSegment_def split: option.splits)

lemma keeps_with_package: "keeps (with_package g)"
  by (simp add: keeps_def no_ideas_at_news_def with_package_def split: option.splits)

lemma keeps_needs_key: "keeps needs_key"
  by (simp add: keeps_def no_ideas_at_news_def needs_key_def)

lemma keeps_selectNews: "f \<in> set (updaters (selectNews item ideas)) \<Longrightarrow> keeps f"
  by (cases ideas) (auto simp: selectNews_def keeps_def no_ideas_at_news_def)

lemma keeps_selectIdea: "f \<in> set (updaters (selectIdea idea pkg)) \<Longrightarrow> keeps f"
  by (cases pkg) (auto simp: selectIdea_def keeps_def no_ideas_at_news_def)

lemma keeps_generateReferenceImages: "f \<in> set (updaters (generateReferenceImages cl urls)) \<Longrightarrow> keeps f"
  by (cases urls; cases "scriptPackage cl")
    (auto simp: generateReferenceImages_def keeps_def no_ideas_at_news_def)

lemma keeps_scene_iteration: "f \<in> set (updaters (scene_iteration segs r scene i)) \<Longrightarrow> keeps f"
  by (cases "scene i") (auto simp: scene_iteration_def keeps_updateSegment)

lemma keeps_scenes_loop: "f \<in> set (updaters (scenes_loop segs r scene 0)) \<Longrightarrow> keeps f"
  by (auto simp: scenes_loop_unfold updaters_concat keeps_scene_iteration)

lemma keeps_selectRefImage: "f \<in> set (updaters (selectRefImage cl url thumb scene)) \<Longrightarrow> keeps f"
proof (cases "scriptPackage cl")
  case None
  assume "f \<in> set (updaters (selectRefImage cl url thumb scene))"
  with None show ?thesis
    by (auto simp: selectRefImage_def generateProductionAssets_def keeps_def no_ideas_at_news_def)
next
  case (Some pkg)
  assume "f \<in> set (updaters (selectRefImage cl url thumb scene))"
  with Some have "f = (\<lambda>prev. prev\<lparr>step := PRODUCTION, selectedRefImageUrl := Some url\<rparr>) \<or>
      (\<exists>g. f = with_package g) \<or> f \<in> set (updaters (scenes_loop (segments pkg) url scene 0))"
    by (cases thumb) (auto simp: selectRefImage_def generateProductionAssets_def updaters_append)
  then show ?thesis
    using keeps_with_package keeps_scenes_loop
    by (auto simp: keeps_def no_ideas_at_news_def)
qed

lemma keeps_speech_settled: "f \<in> set (updaters (speech_settled script audio)) \<Longrightarrow> keeps f"
  by (cases audio) (auto simp: speech_settled_def keeps_with_package)

lemma keeps_animateScene: "f \<in> set (updaters (animateScene segment key video)) \<Longrightarrow> keeps f"
proof -
  assume f: "f \<in> set (updaters (animateScene segment key video))"
  have "f = needs_key \<or> (\<exists>u. f = updateSegment (seg_id segment) u)"
  proof (cases key)
    case NoStudio
    with f show ?thesis by (auto simp: animateScene_def split: if_splits)
  next
    case (Checked c)
    show ?thesis
    proof (cases c)
      case (Inl e)
      with Checked f show ?thesis by (auto simp: animateScene_def split: if_splits)
    next
      case (Inr hasKey)
      with Checked f show ?thesis
        by (cases video) (auto simp: animateScene_def updaters_append split: if_splits)
    qed
  qed
  with keeps_needs_key keeps_updateSegment show ?thesis by auto
qed

lemma keeps_regenerateScene: "f \<in> set (updaters (regenerateScene cl segment img)) \<Longrightarrow> keeps f"
  by (cases img) (auto simp: regenerateScene_def keeps_updateSegment split: if_splits)

lemma keeps_openApiKeyDialog: "f \<in> set (updaters (openApiKeyDialog d)) \<Longrightarrow> keeps f"
  by (auto simp: openApiKeyDialog_def keeps_def no_ideas_at_news_def split: option.splits sum.splits)

lemma reachable_no_ideas_at_news: "reachable st \<Longrightarrow> no_ideas_at_news st"
proof (induction rule: reachable.induct)
  case start
  show ?case by (simp add: no_ideas_at_news_def initial_state_def)
next
  case (news st f item ideas)
  with keeps_selectNews [of f item ideas] show ?case by (simp add: keeps_def)
next
  case (idea st f idea pkg)
  with keeps_selectIdea [of f idea pkg] show ?case by (simp add: keeps_def)
next
  case (refs st f cl urls)
  with keeps_generateReferenceImages [of f cl urls] show ?case by (simp add: keeps_def)
next
  case (ref st f cl url thumb scene)
  with keeps_selectRefImage [of f cl url thumb scene] show ?case by (simp add: keeps_def)
next
  case (speech st f script audio)
  with keeps_speech_settled [of f script audio] show ?case by (simp add: keeps_def)
next
  case (animate st f segment key video)
  with keeps_animateScene [of f segment key video] show ?case by (simp add: keeps_def)
next
  case (regenerate st f cl segment img)
  with keeps_regenerateScene [of f cl segment img] show ?case by (simp add: keeps_def)
next
  case (dialog st f d)
  with keeps_openApiKeyDialog [of f d] show ?case by (simp add: keeps_def)
qed

text \<open>
  Claim C7. In every state the store can reach, no ideas are published while the step is
  \<^verbatim>\<open>NEWS\<close> (\<open>reachable_no_ideas_at_news\<close>). When \<^verbatim>\<open>selectNews\<close> is run in such a
  state and the ideation call fails, the store afterwards is the old one
  with \<open>selectedNews\<close> set to the chosen item and nothing else changed: the step is still
  \<^verbatim>\<open>NEWS\<close> and \<open>ideationOptions\<close> is still empty.
\<close>

theorem selectNews_failure_stays_at_news:
  assumes "reachable prev" and "step prev = NEWS"
  shows "run (selectNews item (Inl e)) prev = prev\<lparr>selectedNews := Some item\<rparr> \<and>
         step (run (selectNews item (Inl e)) prev) = NEWS \<and>
         selectedNews (run (selectNews item (Inl e)) prev) = Some item \<and>
         ideationOptions (run (selectNews item (Inl e)) prev) = []"
  using reachable_no_ideas_at_news [OF assms(1)] assms(2)
  by (simp add: selectNews_def no_ideas_at_news_def)

text \<open>The first selection after start-up, and a second one after a failed first.\<close>

theorem selectNews_failure_stays_at_news_witness:
  "reachable (initial_state\<lparr>selectedNews := Some a_news\<rparr>) \<and>
   step (initial_state\<lparr>selectedNews := Some a_news\<rparr> :: state) = NEWS \<and>
   run (selectNews a_news (Inl (Error ''503''))) (initial_state :: state)
     = initial_state\<lparr>selectedNews := Some a_news\<rparr> \<and>
   run (selectNews a_news (Inl (Error ''503''))) (initial_state\<lparr>selectedNews := Some a_news\<rparr> :: state)
     = initial_state\<lparr>selectedNews := Some a_news\<rparr> \<and>
   step (run (selectNews a_news (Inl (Error ''503''))) (initial_state\<lparr>selectedNews := Some a_news\<rparr> :: state)) = NEWS \<and>
   ideationOptions (run (selectNews a_news (Inl (Error ''503''))) (initial_state\<lparr>selectedNews := Some a_news\<rparr> :: state)) = []"
proof -
  have s0: "step (initial_state :: state) = NEWS" by (simp add: initial_state_def)
  note first = selectNews_failure_stays_at_news [OF reachable.start s0, of a_news "Error ''503''"]
  have "(\<lambda>prev. prev\<lparr>selectedNews := Some a_news\<rparr>)
          \<in> set (updaters (selectNews a_news (Inl (Error ''503'')) :: state event list))"
    by (simp add: selectNews_def)
  from reachable.news [OF reachable.start this]
  have r1: "reachable (initial_state\<lparr>selectedNews := Some a_news\<rparr>)" .
  have s1: "step (initial_state\<lparr>selectedNews := Some a_news\<rparr> :: state) = NEWS"
    by (simp add: initial_state_def)
  from selectNews_failure_stays_at_news [OF r1 s1, of a_news "Error ''503''"] first r1 s1
  show ?thesis by (simp add: initial_state_def)
qed


end
